theory Spec2Isabelle
  imports Complex_Main "HOL-Library.AList"
begin

section \<open>Byte strings and the regular-expression fragment the downloaders use\<close>

text \<open>
  Python \<^verbatim>\<open>str\<close> and \<^verbatim>\<open>bytes\<close> values are lists of characters.
  \<^verbatim>\<open>s.startswith(p)\<close> and \<^verbatim>\<open>sub in s\<close> are the two string tests of
  \<^verbatim>\<open>download_remaining_pdfs.py\<close> and \<^verbatim>\<open>retry_failed_downloads.py\<close>.
\<close>

definition startswith :: "string \<Rightarrow> string \<Rightarrow> bool" where
  "startswith s p = (take (length p) s = p)"

fun contains :: "string \<Rightarrow> string \<Rightarrow> bool" where
  "contains sub [] = (sub = [])"
| "contains sub (c # cs) = (startswith (c # cs) sub \<or> contains sub cs)"

definition in_range :: "char \<Rightarrow> nat \<Rightarrow> nat \<Rightarrow> bool" where
  "in_range c lo hi = (lo \<le> of_char c \<and> of_char c \<le> (hi::nat))"

text \<open>The character class \<^verbatim>\<open>[a-zA-Z0-9-_]\<close>: letters, digits, hyphen, underscore.\<close>

definition id_char :: "char \<Rightarrow> bool" where
  "id_char c = (in_range c 97 122 \<or> in_range c 65 90 \<or> in_range c 48 57
                \<or> c = CHR ''-'' \<or> c = CHR ''_'')"

text \<open>\<^verbatim>\<open>str.lower()\<close> on the ASCII letters.\<close>

definition lower_char :: "char \<Rightarrow> char" where
  "lower_char c = (if in_range c 65 90 then char_of (of_char c + (32::nat)) else c)"

definition lower :: "string \<Rightarrow> string" where
  "lower s = map lower_char s"




text \<open>
  The patterns handed to \<^verbatim>\<open>re.search\<close> are sequences of four kinds of item: a literal,
  one character of a class, a greedy \<^verbatim>\<open>[..]*\<close>, and the capturing group
  \<^verbatim>\<open>([..]+)\<close>. Matching is leftmost, greedy and backtracking, as in Python;
  the result is the text of group 1.
\<close>

datatype item = Lit string | One "char \<Rightarrow> bool" | Star "char \<Rightarrow> bool" | Group "char \<Rightarrow> bool"

fun first_some :: "('a \<Rightarrow> 'b option) \<Rightarrow> 'a list \<Rightarrow> 'b option" where
  "first_some f [] = None"
| "first_some f (x # xs) = (case f x of Some y \<Rightarrow> Some y | None \<Rightarrow> first_some f xs)"

fun match_here :: "item list \<Rightarrow> string \<Rightarrow> string option" where
  "match_here [] s = Some []"
| "match_here (Lit l # r) s =
     (if startswith s l then match_here r (drop (length l) s) else None)"
| "match_here (One c # r) s =
     (case s of [] \<Rightarrow> None | x # xs \<Rightarrow> if c x then match_here r xs else None)"
| "match_here (Star c # r) s =
     first_some (\<lambda>n. match_here r (drop n s)) (rev [0 ..< Suc (length (takeWhile c s))])"
| "match_here (Group c # r) s =
     first_some (\<lambda>n. if match_here r (drop n s) = None then None else Some (take n s))
       (rev [1 ..< Suc (length (takeWhile c s))])"

fun re_search :: "item list \<Rightarrow> string \<Rightarrow> string option" where
  "re_search p [] = match_here p []"
| "re_search p (c # cs) =
     (case match_here p (c # cs) of Some g \<Rightarrow> Some g | None \<Rightarrow> re_search p cs)"

section \<open>URL resolver\<close>

text \<open>
  \<^verbatim>\<open>extract_google_drive_id\<close>: the three patterns are tried in order and the first
  one that matches anywhere in the URL gives the file id.
\<close>

definition file_d_pattern :: "item list" where
  "file_d_pattern = [Lit ''/file/d/'', Group id_char]"

definition id_pattern :: "item list" where
  "id_pattern = [Lit ''id='', Group id_char]"

definition open_id_pattern :: "item list" where
  "open_id_pattern = [Lit ''/open?id='', Group id_char]"

definition drive_patterns :: "item list list" where
  "drive_patterns = [file_d_pattern, id_pattern, open_id_pattern]"

definition extract_google_drive_id :: "string \<Rightarrow> string option" where
  "extract_google_drive_id url = first_some (\<lambda>pattern. re_search pattern url) drive_patterns"

definition get_google_drive_download_url :: "string \<Rightarrow> string" where
  "get_google_drive_download_url file_id =
     ''https://drive.google.com/uc?export=download&id='' @ file_id"

definition get_egovcloud_download_url :: "string \<Rightarrow> string" where
  "get_egovcloud_download_url url =
     (if contains ''/index.php/s/'' url then url @ ''/download'' else url)"

section \<open>Errors, files and the transport\<close>

text \<open>
  Every exception the two scripts can see is an element of one datatype. \<open>OSError\<close>
  is a failing file operation, \<open>ConnectionError\<close> a failing request or a stream that
  breaks,
  \<open>HTTPError\<close> comes from \<^verbatim>\<open>raise_for_status\<close>, \<open>StopIteration\<close> from
  \<^verbatim>\<open>next\<close> on an exhausted iterator, \<open>OverflowError\<close> from \<^verbatim>\<open>time.sleep\<close>; the
  others are the scripts' own \<^verbatim>\<open>raise Exception(...)\<close>.
\<close>

datatype error =
    OSError
  | ConnectionError
  | HTTPError nat
  | StopIteration
  | OverflowError
  | UnboundLocalError
  | NoDriveId
  | NotAPdf
  | TooSmall nat
  | EmptyResponse
  | HtmlPage
  | AllMethodsFailed
  | EgovFailed
  | DirectFailed

text \<open>
  A file has its bytes and four permissions: whether opening it for reading, \<^verbatim>\<open>stat\<close>,
  \<^verbatim>\<open>unlink\<close> and opening it for writing succeed. The file system maps a path to what
  is there; different path strings name different files (no links, no \<^verbatim>\<open>..\<close>).
  Directories are not modelled: \<^verbatim>\<open>mkdir(parents=True, exist_ok=True)\<close> is taken to
  succeed, and a file that does not exist can be created. The file system does not
  change between two operations of a script.

  An entry with \<open>statable = False\<close> stands for a path on which \<^verbatim>\<open>stat\<close> raises an error
  other than "no such file": the directory gives no search permission, or the file name
  is too long. \<^verbatim>\<open>Path.exists()\<close> is \<^verbatim>\<open>stat\<close>: it answers false where nothing is,
  true where \<^verbatim>\<open>stat\<close> succeeds, and raises the error of \<^verbatim>\<open>stat\<close> otherwise.
\<close>

record stored_file =
  bytes :: string
  readable :: bool
  statable :: bool
  deletable :: bool
  writable :: bool

type_synonym path = string
type_synonym fs = "path \<rightharpoonup> stored_file"

definition new_file :: "string \<Rightarrow> stored_file" where
  "new_file d = \<lparr>bytes = d, readable = True, statable = True, deletable = True, writable = True\<rparr>"

definition path_exists :: "fs \<Rightarrow> path \<Rightarrow> error + bool" where
  "path_exists fs p =
     (case fs p of None \<Rightarrow> Inr False
      | Some f \<Rightarrow> if statable f then Inr True else Inl OSError)"

definition read_first :: "fs \<Rightarrow> path \<Rightarrow> nat \<Rightarrow> error + string" where
  "read_first fs p n =
     (case fs p of None \<Rightarrow> Inl OSError
      | Some f \<Rightarrow> if readable f then Inr (take n (bytes f)) else Inl OSError)"

definition st_size :: "fs \<Rightarrow> path \<Rightarrow> error + nat" where
  "st_size fs p =
     (case fs p of None \<Rightarrow> Inl OSError
      | Some f \<Rightarrow> if statable f then Inr (length (bytes f)) else Inl OSError)"

definition unlink :: "fs \<Rightarrow> path \<Rightarrow> error + fs" where
  "unlink fs p =
     (case fs p of None \<Rightarrow> Inl OSError
      | Some f \<Rightarrow> if deletable f then Inr (fs(p := None)) else Inl OSError)"

definition write_file :: "fs \<Rightarrow> path \<Rightarrow> string \<Rightarrow> error + fs" where
  "write_file fs p d =
     (case fs p of None \<Rightarrow> Inr (fs(p \<mapsto> new_file d))
      | Some f \<Rightarrow> if writable f then Inr (fs(p \<mapsto> f\<lparr>bytes := d\<rparr>)) else Inl OSError)"

section \<open>Existing-file checker\<close>

text \<open>
  \<^verbatim>\<open>check_existing_file\<close>, lines 88 to 109. The call of \<^verbatim>\<open>exists()\<close> in line 90
  is outside the \<^verbatim>\<open>try\<close>: its error leaves the function. \<open>check_body\<close> is the
  \<^verbatim>\<open>try\<close> block: the \<^verbatim>\<open>stat\<close> call is only reached when the first four bytes are
  the signature (Python's \<^verbatim>\<open>and\<close>), and an \<^verbatim>\<open>unlink\<close> that raises inside it lands
  in the handler too. The handler tries \<^verbatim>\<open>unlink\<close> once more and swallows its failure.
\<close>

definition check_body :: "fs \<Rightarrow> path \<Rightarrow> error + (bool \<times> fs)" where
  "check_body fs p =
     (case read_first fs p 4 of
        Inl e \<Rightarrow> Inl e
      | Inr first_bytes \<Rightarrow>
          if first_bytes = ''%PDF'' then
            (case st_size fs p of
               Inl e \<Rightarrow> Inl e
             | Inr n \<Rightarrow>
                 if n > 1000 then Inr (True, fs)
                 else (case unlink fs p of Inl e \<Rightarrow> Inl e | Inr fs' \<Rightarrow> Inr (False, fs')))
          else (case unlink fs p of Inl e \<Rightarrow> Inl e | Inr fs' \<Rightarrow> Inr (False, fs')))"

definition check_existing_file :: "fs \<Rightarrow> path \<Rightarrow> error + (bool \<times> fs)" where
  "check_existing_file fs p =
     (case path_exists fs p of
        Inl e \<Rightarrow> Inl e
      | Inr False \<Rightarrow> Inr (False, fs)
      | Inr True \<Rightarrow>
          (case check_body fs p of
             Inr r \<Rightarrow> Inr r
           | Inl e \<Rightarrow>
               (case unlink fs p of
                  Inr fs' \<Rightarrow> Inr (False, fs')
                | Inl e' \<Rightarrow> Inr (False, fs))))"


section \<open>Transport and world\<close>

text \<open>
  A response of the HTTP library: the status code, the \<^verbatim>\<open>content-type\<close> header (empty when
  the header is missing), the chunks that \<^verbatim>\<open>iter_content\<close> yields, whether the stream
  breaks with a connection error after the last of them, and whether the body comes
  with chunked transfer encoding. The transport answers the \<open>n\<close>-th request of the run
  for a URL with a response or with an error.
\<close>

record response =
  status_code :: nat
  content_type :: string
  chunks :: "string list"
  broken :: bool
  chunked :: bool

type_synonym transport = "nat \<Rightarrow> string \<Rightarrow> error + response"

text \<open>
  The world outside the downloader object: the file system, every \<^verbatim>\<open>session.get\<close> so far
  (with the destination path of the task that issued it), every \<^verbatim>\<open>time.sleep\<close> so far,
  the numbers printed by the \<^verbatim>\<open>Attempt k/n\<close> lines, and the clock read by
  \<^verbatim>\<open>time.time()\<close> and \<^verbatim>\<open>time.strftime\<close> (a number that the model leaves as it
  is).
\<close>

record world =
  files :: fs
  requests :: "(path \<times> string) list"
  sleeps :: "rat list"
  attempt_log :: "nat list"
  clock :: nat

definition session_get :: "transport \<Rightarrow> path \<Rightarrow> string \<Rightarrow> world \<Rightarrow> (error + response) \<times> world" where
  "session_get T p u w = (T (length (requests w)) u, w\<lparr>requests := requests w @ [(p, u)]\<rparr>)"

definition raise_for_status :: "response \<Rightarrow> error + unit" where
  "raise_for_status r =
     (if 400 \<le> status_code r \<and> status_code r < 600 then Inl (HTTPError (status_code r))
      else Inr ())"

definition response_text :: "response \<Rightarrow> error + string" where
  "response_text r = (if broken r then Inl ConnectionError else Inr (concat (chunks r)))"

function slices :: "nat \<Rightarrow> string \<Rightarrow> string list" where
  "slices n s = (if n = 0 \<or> s = [] then [] else take n s # slices n (drop n s))"
  by pat_completeness auto
termination
  by (relation "measure (\<lambda>(n, s). length s)") auto

text \<open>
  \<^verbatim>\<open>response.iter_content(chunk_size=8192)\<close>: the chunks of the stream and whether it
  ends in an error. Once \<^verbatim>\<open>response.text\<close> has read the body (\<open>cached\<close>), every call
  iterates over the cached content again, in slices of 8192 bytes.
\<close>

definition iter_content :: "bool \<Rightarrow> response \<Rightarrow> string list \<times> bool" where
  "iter_content cached r =
     (if cached then (slices 8192 (concat (chunks r)), False) else (chunks r, broken r))"

text \<open>
  \<^verbatim>\<open>with open(file_path, 'wb') as f\<close>, then the first chunk and every non-empty later
  chunk are written. When the stream breaks, what was written stays in the file.
\<close>

definition stream_to_file :: "fs \<Rightarrow> path \<Rightarrow> string \<Rightarrow> string list \<Rightarrow> bool \<Rightarrow> (error + unit) \<times> fs" where
  "stream_to_file fs p first rest brk =
     (case write_file fs p (first @ concat (filter (\<lambda>chunk. chunk \<noteq> []) rest)) of
        Inl e \<Rightarrow> (Inl e, fs)
      | Inr fs' \<Rightarrow> (if brk then Inl ConnectionError else Inr (), fs'))"

section \<open>The downloader of download\_remaining\_pdfs.py\<close>

text \<open>
  A download task. Its \<open>file_path\<close> is a \<^verbatim>\<open>pathlib.Path\<close>, given by the string
  \<^verbatim>\<open>str(file_path)\<close> under which the scripts record it.
\<close>

record task =
  url :: string
  file_path :: path
  book_name :: string
  link_number :: nat

record failure = task +
  err :: error
  attempts :: "nat option"
  retry_attempts :: "nat option"

record entry =
  e_book_name :: string
  e_link_number :: nat
  original_url :: string
  file_size :: "nat option"
  status :: "string option"
  download_time :: "nat option"
  attempt :: "nat option"
  retry_attempt :: "nat option"

text \<open>
  \<^verbatim>\<open>DirectPDFDownloader\<close>: \<^verbatim>\<open>downloaded_files\<close> is a Python dict (an association list
  with one pair per key, in insertion order), \<^verbatim>\<open>failed_downloads\<close> a list.
  A negative \<^verbatim>\<open>retry_count\<close> behaves as 0: \<^verbatim>\<open>range\<close> is empty.
\<close>

record downloader =
  retry_count :: nat
  max_workers :: nat
  downloaded_files :: "(path \<times> entry) list"
  failed_downloads :: "failure list"
  existing_files :: nat
  newly_downloaded :: nat

definition DirectPDFDownloader :: "nat \<Rightarrow> nat \<Rightarrow> downloader" where
  "DirectPDFDownloader workers retries =
     \<lparr>retry_count = retries, max_workers = workers, downloaded_files = [],
      failed_downloads = [], existing_files = 0, newly_downloaded = 0\<rparr>"

text \<open>Lines 131 to 140: the download URL and, for Google Drive, the file id.\<close>

definition resolve :: "string \<Rightarrow> error + (string \<times> string option)" where
  "resolve u =
     (if contains ''drive.google.com'' u then
        (case extract_google_drive_id u of
           None \<Rightarrow> Inl NoDriveId
         | Some file_id \<Rightarrow> Inr (get_google_drive_download_url file_id, Some file_id))
      else if contains ''drive.egovcloud.gov.bd'' u then Inr (get_egovcloud_download_url u, None)
      else Inr (u, None))"

text \<open>
  Lines 148 to 158, the virus-scan page of Google Drive: the confirm token is searched
  with \<^verbatim>\<open>confirm=([^&]+)\<close> and the file fetched again. The result is the response to go
  on with and whether its body has been read by \<^verbatim>\<open>response.text\<close>.
\<close>

definition confirm_pattern :: "item list" where
  "confirm_pattern = [Lit ''confirm='', Group (\<lambda>c. c \<noteq> CHR ''&'')]"

definition confirm_url :: "string \<Rightarrow> string \<Rightarrow> string" where
  "confirm_url token file_id =
     ''https://drive.google.com/uc?export=download&confirm='' @ token @ ''&id='' @ file_id"

definition virus_scan ::
  "transport \<Rightarrow> path \<Rightarrow> string \<Rightarrow> string option \<Rightarrow> response \<Rightarrow> world
     \<Rightarrow> (error + (response \<times> bool)) \<times> world" where
  "virus_scan T p download_url file_id r w =
     (if contains ''drive.google.com'' download_url \<and> status_code r = 200 then
        (if contains ''text/html'' (content_type r) then
           (case response_text r of
              Inl e \<Rightarrow> (Inl e, w)
            | Inr content \<Rightarrow>
                if contains ''confirm='' content then
                  (case re_search confirm_pattern content of
                     None \<Rightarrow> (Inr (r, True), w)
                   | Some token \<Rightarrow>
                       (case file_id of
                          None \<Rightarrow> (Inl UnboundLocalError, w)
                        | Some fid \<Rightarrow>
                            (case session_get T p (confirm_url token fid) w of
                               (Inl e, w') \<Rightarrow> (Inl e, w')
                             | (Inr r', w') \<Rightarrow> (Inr (r', False), w'))))
                else (Inr (r, True), w))
         else (Inr (r, False), w))
      else (Inr (r, False), w))"

text \<open>
  Lines 162 to 182. Only when the content type names neither \<^verbatim>\<open>application/pdf\<close> nor
  \<^verbatim>\<open>application/octet-stream\<close> is the first chunk tested for the signature. The
  iterator that gave the first chunk is dropped, and the rest is read from a second
  \<^verbatim>\<open>iter_content\<close>: it starts over when the body is cached; it continues the stream of
  a body with a content length; and it yields nothing for a chunked body, whose
  connection the dropped iterator has closed.
\<close>

definition save_response :: "response \<Rightarrow> bool \<Rightarrow> fs \<Rightarrow> path \<Rightarrow> (error + unit) \<times> fs" where
  "save_response r cached fs p =
     (case iter_content cached r of
        (cs, brk) \<Rightarrow>
          if \<not> contains ''application/pdf'' (content_type r)
             \<and> \<not> contains ''application/octet-stream'' (content_type r) then
            (case cs of
               [] \<Rightarrow> (Inl (if brk then ConnectionError else StopIteration), fs)
             | first_chunk # rest \<Rightarrow>
                 if \<not> startswith first_chunk ''%PDF'' then (Inl NotAPdf, fs)
                 else if cached then stream_to_file fs p first_chunk cs brk
                 else if chunked r then stream_to_file fs p first_chunk [] False
                 else stream_to_file fs p first_chunk rest brk)
          else stream_to_file fs p [] cs brk)"

text \<open>
  The body of the \<^verbatim>\<open>try\<close> of \<^verbatim>\<open>download_file\<close>, lines 131 to 186, up to the size
  check. It returns the size that \<^verbatim>\<open>stat\<close> reports, which the success branch stores
  (the file is not touched between the two \<^verbatim>\<open>stat\<close> calls).
\<close>

definition try_download :: "transport \<Rightarrow> string \<Rightarrow> path \<Rightarrow> world \<Rightarrow> (error + nat) \<times> world" where
  "try_download T u p w =
     (case resolve u of
        Inl e \<Rightarrow> (Inl e, w)
      | Inr (download_url, file_id) \<Rightarrow>
          (case session_get T p download_url w of
             (Inl e, w1) \<Rightarrow> (Inl e, w1)
           | (Inr r, w1) \<Rightarrow>
               (case virus_scan T p download_url file_id r w1 of
                  (Inl e, w2) \<Rightarrow> (Inl e, w2)
                | (Inr (r2, cached), w2) \<Rightarrow>
                    (case raise_for_status r2 of
                       Inl e \<Rightarrow> (Inl e, w2)
                     | Inr _ \<Rightarrow>
                         (case save_response r2 cached (files w2) p of
                            (Inl e, fs') \<Rightarrow> (Inl e, w2\<lparr>files := fs'\<rparr>)
                          | (Inr _, fs') \<Rightarrow>
                              (case st_size fs' p of
                                 Inl e \<Rightarrow> (Inl e, w2\<lparr>files := fs'\<rparr>)
                               | Inr n \<Rightarrow>
                                   if n < 1000 then (Inl (TooSmall n), w2\<lparr>files := fs'\<rparr>)
                                   else (Inr n, w2\<lparr>files := fs'\<rparr>)))))))"

definition newly_downloaded_entry :: "task \<Rightarrow> nat \<Rightarrow> nat \<Rightarrow> nat \<Rightarrow> entry" where
  "newly_downloaded_entry t n now k =
     \<lparr>e_book_name = book_name t, e_link_number = link_number t, original_url = url t,
      file_size = Some n, status = Some ''newly_downloaded'', download_time = Some now,
      attempt = Some k, retry_attempt = None\<rparr>"

definition existing_entry :: "task \<Rightarrow> nat option \<Rightarrow> entry" where
  "existing_entry t n =
     \<lparr>e_book_name = book_name t, e_link_number = link_number t, original_url = url t,
      file_size = n, status = Some ''existing_file'', download_time = None,
      attempt = None, retry_attempt = None\<rparr>"

definition failed_entry :: "task \<Rightarrow> error \<Rightarrow> nat \<Rightarrow> failure" where
  "failed_entry t e k =
     \<lparr>url = url t, file_path = file_path t, book_name = book_name t,
      link_number = link_number t, err = e, attempts = Some k, retry_attempts = None\<rparr>"

text \<open>
  The loop \<^verbatim>\<open>for attempt in range(self.retry_count)\<close>, lines 127 to 222, entered at
  \<open>attempt\<close>. The wait before the next attempt is \<^verbatim>\<open>min(2 ** attempt, 10)\<close>.
\<close>

function download_attempts ::
  "transport \<Rightarrow> task \<Rightarrow> nat \<Rightarrow> downloader \<Rightarrow> world \<Rightarrow> bool \<times> downloader \<times> world" where
  "download_attempts T t k D w =
     (if k < retry_count D then
        (case try_download T (url t) (file_path t) (w\<lparr>attempt_log := attempt_log w @ [k + 1]\<rparr>) of
           (Inr n, w1) \<Rightarrow>
             (True,
              D\<lparr>newly_downloaded := newly_downloaded D + 1,
                downloaded_files :=
                  AList.update (file_path t) (newly_downloaded_entry t n (clock w1) (k + 1))
                    (downloaded_files D)\<rparr>,
              w1)
         | (Inl e, w1) \<Rightarrow>
             if k = retry_count D - 1 then
               (False, D\<lparr>failed_downloads := failed_downloads D @ [failed_entry t e (k + 1)]\<rparr>, w1)
             else
               download_attempts T t (Suc k) D
                 (w1\<lparr>sleeps := sleeps w1 @ [of_nat (min (2 ^ k) 10)]\<rparr>))
      else (False, D, w))"
  by pat_completeness auto
termination
  by (relation "measure (\<lambda>(T, t, k, D, w). retry_count D - k)") auto

definition stat_opt :: "fs \<Rightarrow> path \<Rightarrow> nat option" where
  "stat_opt fs p = (case st_size fs p of Inr n \<Rightarrow> Some n | Inl e \<Rightarrow> None)"

text \<open>
  \<^verbatim>\<open>download_file\<close>, lines 111 to 222: the existing-file check comes first; an exception
  of the check would leave the function (the check is outside the \<^verbatim>\<open>try\<close>).
\<close>

definition download_file ::
  "transport \<Rightarrow> task \<Rightarrow> downloader \<Rightarrow> world \<Rightarrow> error + (bool \<times> downloader \<times> world)" where
  "download_file T t D w =
     (case check_existing_file (files w) (file_path t) of
        Inl e \<Rightarrow> Inl e
      | Inr (True, fs') \<Rightarrow>
          Inr (True,
               D\<lparr>existing_files := existing_files D + 1,
                 downloaded_files :=
                   AList.update (file_path t) (existing_entry t (stat_opt fs' (file_path t)))
                     (downloaded_files D)\<rparr>,
               w\<lparr>files := fs'\<rparr>)
      | Inr (False, fs') \<Rightarrow> Inr (download_attempts T t 0 D (w\<lparr>files := fs'\<rparr>)))"


text \<open>
  \<^verbatim>\<open>download_all_pdfs\<close>, lines 317 to 376. The first loop checks every destination and
  records the valid ones; an exception there would end the run.
\<close>

fun check_all :: "task list \<Rightarrow> downloader \<Rightarrow> world \<Rightarrow> error + (task list \<times> downloader \<times> world)" where
  "check_all [] D w = Inr ([], D, w)"
| "check_all (t # ts) D w =
     (case check_existing_file (files w) (file_path t) of
        Inl e \<Rightarrow> Inl e
      | Inr (True, fs') \<Rightarrow>
          check_all ts
            (D\<lparr>existing_files := existing_files D + 1,
               downloaded_files :=
                 AList.update (file_path t) (existing_entry t (stat_opt fs' (file_path t)))
                   (downloaded_files D)\<rparr>)
            (w\<lparr>files := fs'\<rparr>)
      | Inr (False, fs') \<Rightarrow>
          (case check_all ts D (w\<lparr>files := fs'\<rparr>) of
             Inl e \<Rightarrow> Inl e
           | Inr (files_to_download, D', w') \<Rightarrow> Inr (t # files_to_download, D', w')))"

text \<open>
  The thread pool runs \<^verbatim>\<open>download_file\<close> once for every submitted task; the workers
  change the downloader only under its lock. The model runs the calls one after the
  other, in the order of submission. An exception of a call (it can only come from the
  existing-file check, before the call has changed anything) is caught where its
  future is read.
\<close>

fun run_pool :: "transport \<Rightarrow> task list \<Rightarrow> downloader \<Rightarrow> world \<Rightarrow> downloader \<times> world" where
  "run_pool T [] D w = (D, w)"
| "run_pool T (t # ts) D w =
     (case download_file T t D w of
        Inl e \<Rightarrow> run_pool T ts D w
      | Inr (success, D', w') \<Rightarrow> run_pool T ts D' w')"

definition download_all_pdfs ::
  "transport \<Rightarrow> task list \<Rightarrow> downloader \<Rightarrow> world \<Rightarrow> error + (downloader \<times> world)" where
  "download_all_pdfs T downloads D w =
     (case check_all downloads D w of
        Inl e \<Rightarrow> Inl e
      | Inr (files_to_download, D', w') \<Rightarrow>
          if files_to_download = [] then Inr (D', w')
          else Inr (run_pool T files_to_download D' w'))"

text \<open>
  \<^verbatim>\<open>save_download_report\<close>, lines 378 to 401: the report written to
  \<^verbatim>\<open>download_report.json\<close> holds the two collections of the ledger as they are, and
  counts of them (the \<^verbatim>\<open>statistics\<close> are flattened into the record).
\<close>

record download_report =
  scan_time :: nat
  total_found :: nat
  report_existing_files :: nat
  report_newly_downloaded :: nat
  total_successful :: nat
  report_total_failed :: nat
  report_downloaded_files :: "(path \<times> entry) list"
  report_failed_downloads :: "failure list"
  total_size_bytes :: nat
  retry_count_used :: nat
  max_workers_used :: nat

definition save_download_report :: "downloader \<Rightarrow> nat \<Rightarrow> download_report" where
  "save_download_report D now =
     \<lparr>scan_time = now,
      total_found = length (downloaded_files D) + length (failed_downloads D),
      report_existing_files = existing_files D,
      report_newly_downloaded = newly_downloaded D,
      total_successful = length (downloaded_files D),
      report_total_failed = length (failed_downloads D),
      report_downloaded_files = downloaded_files D,
      report_failed_downloads = failed_downloads D,
      total_size_bytes =
        sum_list (map (\<lambda>kv. case file_size (snd kv) of None \<Rightarrow> 0 | Some n \<Rightarrow> n)
          (downloaded_files D)),
      retry_count_used = retry_count D,
      max_workers_used = max_workers D\<rparr>"

section \<open>The downloader of retry\_failed\_downloads.py\<close>

record retry_downloader =
  r_retry_count :: nat
  r_max_workers :: nat
  r_newly_downloaded :: "(path \<times> entry) list"
  still_failed :: "failure list"


definition dquote :: char where
  "dquote = CHR 0x22"

text \<open>
  The confirm patterns of \<^verbatim>\<open>_attempt_download\<close>, lines 175 to 179, and the uuid pattern
  of line 191.
\<close>

definition href_confirm_pattern :: "item list" where
  "href_confirm_pattern =
     [Lit (''href='' @ [dquote]), Star (\<lambda>c. c \<noteq> dquote),
      One (\<lambda>c. c = CHR ''?'' \<or> c = CHR ''&''), Lit ''confirm='',
      Group (\<lambda>c. c \<noteq> CHR ''&'' \<and> c \<noteq> dquote)]"

definition download_url_confirm_pattern :: "item list" where
  "download_url_confirm_pattern =
     [Lit ([dquote] @ ''downloadUrl'' @ [dquote] @ '':'' @ [dquote]), Star (\<lambda>c. c \<noteq> dquote),
      One (\<lambda>c. c = CHR ''?'' \<or> c = CHR ''&''), Lit ''confirm='',
      Group (\<lambda>c. c \<noteq> CHR ''&'' \<and> c \<noteq> dquote)]"

definition plain_confirm_pattern :: "item list" where
  "plain_confirm_pattern = [Lit ''confirm='', Group id_char]"

definition confirm_patterns :: "item list list" where
  "confirm_patterns =
     [href_confirm_pattern, download_url_confirm_pattern, plain_confirm_pattern]"

definition uuid_pattern :: "item list" where
  "uuid_pattern = [Lit ''uuid='', Group (\<lambda>c. c \<noteq> CHR ''&'' \<and> c \<noteq> dquote)]"

definition usercontent_url :: "string \<Rightarrow> string \<Rightarrow> string \<Rightarrow> string" where
  "usercontent_url file_id key val =
     ''https://drive.usercontent.google.com/download?id='' @ file_id @ ''&export=download&''
       @ key @ ''='' @ val"

text \<open>Lines 164 to 196: the Google Drive pages, with the confirm token or the uuid.\<close>

definition retry_virus_scan ::
  "transport \<Rightarrow> path \<Rightarrow> string option \<Rightarrow> response \<Rightarrow> world
     \<Rightarrow> (error + (response \<times> bool)) \<times> world" where
  "retry_virus_scan T p google_file_id r w =
     (case google_file_id of
        None \<Rightarrow> (Inr (r, False), w)
      | Some fid \<Rightarrow>
          if fid \<noteq> [] \<and> status_code r = 200 then
            (if contains ''text/html'' (lower (content_type r)) then
               (case response_text r of
                  Inl e \<Rightarrow> (Inl e, w)
                | Inr content \<Rightarrow>
                    if contains ''virus scan warning'' (lower content)
                       \<or> contains ''download anyway'' (lower content) then
                      (case first_some (\<lambda>pattern. re_search pattern content) confirm_patterns of
                         Some confirm_token \<Rightarrow>
                           (case session_get T p (usercontent_url fid ''confirm'' confirm_token) w of
                              (Inl e, w') \<Rightarrow> (Inl e, w')
                            | (Inr r', w') \<Rightarrow> (Inr (r', False), w'))
                       | None \<Rightarrow>
                           (case re_search uuid_pattern content of
                              Some uuid \<Rightarrow>
                                (case session_get T p (usercontent_url fid ''uuid'' uuid) w of
                                   (Inl e, w') \<Rightarrow> (Inl e, w')
                                 | (Inr r', w') \<Rightarrow> (Inr (r', False), w'))
                            | None \<Rightarrow> (Inr (r, True), w)))
                    else (Inr (r, True), w))
             else (Inr (r, False), w))
          else (Inr (r, False), w))"

text \<open>
  Lines 204 to 226: the first chunk is always tested for the signature before the file
  is opened, and the rest comes from the same iterator.
\<close>

definition retry_save_response :: "response \<Rightarrow> bool \<Rightarrow> fs \<Rightarrow> path \<Rightarrow> (error + unit) \<times> fs" where
  "retry_save_response r cached fs p =
     (case iter_content cached r of
        (cs, brk) \<Rightarrow>
          (case cs of
             [] \<Rightarrow> (Inl (if brk then ConnectionError else EmptyResponse), fs)
           | first_chunk # rest \<Rightarrow>
               if \<not> startswith first_chunk ''%PDF'' then
                 (if startswith first_chunk ''<!DOCTYPE'' \<or> startswith first_chunk ''<html''
                  then (Inl HtmlPage, fs) else (Inl NotAPdf, fs))
               else stream_to_file fs p first_chunk rest brk))"

text \<open>\<^verbatim>\<open>_attempt_download\<close>, lines 156 to 233: it returns \<^verbatim>\<open>True\<close> or raises.\<close>

definition attempt_download ::
  "transport \<Rightarrow> string \<Rightarrow> path \<Rightarrow> string option \<Rightarrow> world \<Rightarrow> (error + bool) \<times> world" where
  "attempt_download T download_url p google_file_id w =
     (case session_get T p download_url w of
        (Inl e, w1) \<Rightarrow> (Inl e, w1)
      | (Inr r, w1) \<Rightarrow>
          (case retry_virus_scan T p google_file_id r w1 of
             (Inl e, w2) \<Rightarrow> (Inl e, w2)
           | (Inr (r2, cached), w2) \<Rightarrow>
               (case raise_for_status r2 of
                  Inl e \<Rightarrow> (Inl e, w2)
                | Inr _ \<Rightarrow>
                    (case retry_save_response r2 cached (files w2) p of
                       (Inl e, fs') \<Rightarrow> (Inl e, w2\<lparr>files := fs'\<rparr>)
                     | (Inr _, fs') \<Rightarrow>
                         (case st_size fs' p of
                            Inl e \<Rightarrow> (Inl e, w2\<lparr>files := fs'\<rparr>)
                          | Inr n \<Rightarrow>
                              if n < 1000 then (Inl (TooSmall n), w2\<lparr>files := fs'\<rparr>)
                              else (Inr True, w2\<lparr>files := fs'\<rparr>))))))"

definition download_urls :: "string \<Rightarrow> string list" where
  "download_urls file_id =
     [''https://drive.usercontent.google.com/download?id='' @ file_id
        @ ''&export=download&authuser=0&confirm=t'',
      ''https://drive.google.com/uc?export=download&id='' @ file_id @ ''&confirm=t'',
      ''https://drive.google.com/uc?id='' @ file_id @ ''&export=download'',
      ''https://docs.google.com/uc?export=download&id='' @ file_id]"

text \<open>
  Lines 94 to 103: the Google Drive methods are tried in order; an exception of one
  method is swallowed and the next one tried.
\<close>

fun try_methods :: "transport \<Rightarrow> path \<Rightarrow> string \<Rightarrow> string list \<Rightarrow> world \<Rightarrow> bool \<times> world" where
  "try_methods T p fid [] w = (False, w)"
| "try_methods T p fid (u # us) w =
     (case attempt_download T u p (Some fid) w of
        (Inl e, w') \<Rightarrow> try_methods T p fid us w'
      | (Inr success, w') \<Rightarrow> if success then (True, w') else try_methods T p fid us w')"

text \<open>
  The body of the \<^verbatim>\<open>try\<close> of \<^verbatim>\<open>download_file_advanced\<close>, lines 78 to 126, with the
  \<^verbatim>\<open>stat\<close> of the success branch.
\<close>

definition try_advanced :: "transport \<Rightarrow> string \<Rightarrow> path \<Rightarrow> world \<Rightarrow> (error + nat) \<times> world" where
  "try_advanced T u p w =
     (case
        (if contains ''drive.google.com'' u then
           (case extract_google_drive_id u of
              None \<Rightarrow> (Inl NoDriveId, w)
            | Some file_id \<Rightarrow>
                (case try_methods T p file_id (download_urls file_id) w of
                   (success, w') \<Rightarrow> if \<not> success then (Inl AllMethodsFailed, w') else (Inr (), w')))
         else if contains ''drive.egovcloud.gov.bd'' u then
           (case attempt_download T (get_egovcloud_download_url u) p None w of
              (Inl e, w') \<Rightarrow> (Inl e, w')
            | (Inr success, w') \<Rightarrow> if \<not> success then (Inl EgovFailed, w') else (Inr (), w'))
         else
           (case attempt_download T u p None w of
              (Inl e, w') \<Rightarrow> (Inl e, w')
            | (Inr success, w') \<Rightarrow> if \<not> success then (Inl DirectFailed, w') else (Inr (), w')))
      of
        (Inl e, w') \<Rightarrow> (Inl e, w')
      | (Inr _, w') \<Rightarrow>
          (case st_size (files w') p of Inl e \<Rightarrow> (Inl e, w') | Inr n \<Rightarrow> (Inr n, w')))"

definition retried_entry :: "task \<Rightarrow> nat \<Rightarrow> nat \<Rightarrow> nat \<Rightarrow> entry" where
  "retried_entry t n now k =
     \<lparr>e_book_name = book_name t, e_link_number = link_number t, original_url = url t,
      file_size = Some n, status = None, download_time = Some now,
      attempt = None, retry_attempt = Some k\<rparr>"

definition still_failed_entry :: "task \<Rightarrow> error \<Rightarrow> nat \<Rightarrow> failure" where
  "still_failed_entry t e k =
     \<lparr>url = url t, file_path = file_path t, book_name = book_name t,
      link_number = link_number t, err = e, attempts = None, retry_attempts = Some k\<rparr>"

text \<open>
  \<^verbatim>\<open>time.sleep\<close> of CPython converts its argument to a 64-bit number of nanoseconds
  and raises \<^verbatim>\<open>OverflowError\<close> when it does not fit. \<open>max_sleep\<close> is the bound in
  seconds.
\<close>

definition max_sleep :: rat where
  "max_sleep = 9223372036854775807 / 1000000000"

text \<open>
  The wait of \<^verbatim>\<open>download_file_advanced\<close>, \<^verbatim>\<open>(2 ** attempt) + (attempt * 0.5)\<close>: a
  float. Up to \<open>max_sleep\<close> (attempt 33) the float is the exact sum; every later sum is
  larger than \<open>max_sleep\<close>, exact or rounded, and the sum of attempt 1024 and later does
  not exist as a float: computing it raises \<^verbatim>\<open>OverflowError\<close> as well.
\<close>

definition wait_time :: "nat \<Rightarrow> rat" where
  "wait_time k = 2 ^ k + of_nat k * (1 / 2)"

text \<open>
  The loop of \<^verbatim>\<open>download_file_advanced\<close>, lines 76 to 154, entered at \<open>attempt\<close>. The
  wait is computed and slept inside the \<^verbatim>\<open>except\<close> block, so its
  \<^verbatim>\<open>OverflowError\<close> leaves the function: the result is then the exception, and the
  task has no record.
\<close>

function advanced_attempts ::
  "transport \<Rightarrow> task \<Rightarrow> nat \<Rightarrow> retry_downloader \<Rightarrow> world
     \<Rightarrow> (error + bool) \<times> retry_downloader \<times> world" where
  "advanced_attempts T t k R w =
     (if k < r_retry_count R then
        (case try_advanced T (url t) (file_path t) (w\<lparr>attempt_log := attempt_log w @ [k + 1]\<rparr>) of
           (Inr n, w1) \<Rightarrow>
             (Inr True,
              R\<lparr>r_newly_downloaded :=
                  AList.update (file_path t) (retried_entry t n (clock w1) (k + 1))
                    (r_newly_downloaded R)\<rparr>,
              w1)
         | (Inl e, w1) \<Rightarrow>
             if k = r_retry_count R - 1 then
               (Inr False,
                R\<lparr>still_failed := still_failed R @ [still_failed_entry t e (r_retry_count R)]\<rparr>,
                w1)
             else if max_sleep < wait_time k then (Inl OverflowError, R, w1)
             else
               advanced_attempts T t (Suc k) R (w1\<lparr>sleeps := sleeps w1 @ [wait_time k]\<rparr>))
      else (Inr False, R, w))"
  by pat_completeness auto
termination
  by (relation "measure (\<lambda>(T, t, k, R, w). r_retry_count R - k)") auto


text \<open>
  The persisted ledger \<^verbatim>\<open>index.json\<close>, as far as the retry script reads and writes it.
  Where the script gets the ledger, \<open>None\<close> stands for a file that does not exist. The
  keys \<^verbatim>\<open>downloaded_files\<close> and \<^verbatim>\<open>failed_downloads\<close> are taken to be present.
\<close>

record index_data =
  idx_downloaded_files :: "(path \<times> entry) list"
  idx_failed_downloads :: "failure list"
  total_downloaded :: "nat option"
  total_failed :: "nat option"
  last_retry_at :: "nat option"
  retry_summary :: "(nat \<times> nat \<times> nat) option"











section \<open>Validity of a destination, and the inputs of the examples\<close>

text \<open>
  The validity of section 4.1 of the specification, in its words: the path exists, is
  readable, begins with the signature \<^verbatim>\<open>%PDF\<close>, and its size exceeds the floor of 1000
  bytes.
\<close>

definition valid_pdf :: "fs \<Rightarrow> path \<Rightarrow> bool" where
  "valid_pdf fs p =
     (path_exists fs p = Inr True \<and> read_first fs p 4 = Inr ''%PDF''
      \<and> (case st_size fs p of Inl e \<Rightarrow> False | Inr n \<Rightarrow> 1000 < n))"

text \<open>
  A response whose stream breaks only after it has delivered a valid file: more than
  1000 bytes that begin with the signature.
\<close>

definition valid_bytes :: "string \<Rightarrow> bool" where
  "valid_bytes d = (take 4 d = ''%PDF'' \<and> 1000 < length d)"

definition breaks_late :: "response \<Rightarrow> bool" where
  "breaks_late r = (broken r \<and> valid_bytes (concat (chunks r)))"

text \<open>The number of ledger records of a destination path: successes and failures.\<close>

definition successes :: "downloader \<Rightarrow> path \<Rightarrow> nat" where
  "successes D p = length (filter (\<lambda>kv. fst kv = p) (downloaded_files D))"

definition failures :: "downloader \<Rightarrow> path \<Rightarrow> nat" where
  "failures D p = length (filter (\<lambda>f. file_path f = p) (failed_downloads D))"

text \<open>
  An empty world; three tasks for direct links with three destinations, a task for a
  mirror of the first book with the destination of the first, and one for a Google
  Drive folder link (no file id in it); and six transports: one that never connects,
  one that serves a document cut off after twelve bytes, one that serves a ZIP archive
  of 1006 bytes as \<^verbatim>\<open>application/octet-stream\<close>, one that serves a PDF of 2008
  bytes, one whose stream of that PDF breaks at the end, and one that serves the PDF
  for the URL of the first book and refuses every other request.
\<close>

definition empty_world :: world where
  "empty_world = \<lparr>files = Map.empty, requests = [], sleeps = [], attempt_log = [], clock = 0\<rparr>"

definition book_task :: task where
  "book_task =
     \<lparr>url = ''https://example.org/book.pdf'', file_path = ''out/book_1.pdf'',
      book_name = ''book'', link_number = 1\<rparr>"

definition other_task :: task where
  "other_task =
     \<lparr>url = ''https://example.org/other.pdf'', file_path = ''out/other_2.pdf'',
      book_name = ''other'', link_number = 2\<rparr>"

definition third_task :: task where
  "third_task =
     \<lparr>url = ''https://example.org/third.pdf'', file_path = ''out/third_3.pdf'',
      book_name = ''third'', link_number = 3\<rparr>"

definition mirror_task :: task where
  "mirror_task =
     \<lparr>url = ''https://mirror.example.org/book.pdf'', file_path = ''out/book_1.pdf'',
      book_name = ''book'', link_number = 1\<rparr>"






definition good_pdf :: transport where
  "good_pdf n u =
     Inr \<lparr>status_code = 200, content_type = ''application/pdf'',
          chunks = [''%PDF-1.4'' @ replicate 2000 CHR ''x''], broken = False, chunked = False\<rparr>"



text \<open>
  An error page that cannot be deleted, a PDF that cannot be read, a stored PDF of
  2008 bytes, and the entry of a destination on which \<^verbatim>\<open>stat\<close> raises (a file name
  longer than the 255 bytes that the file system allows, or a directory without search
  permission): no operation on it succeeds.
\<close>

definition no_access :: stored_file where
  "no_access =
     \<lparr>bytes = [], readable = False, statable = False, deletable = False, writable = False\<rparr>"

definition locked_page :: stored_file where
  "locked_page =
     \<lparr>bytes = ''<html>'', readable = True, statable = True, deletable = False, writable = True\<rparr>"








text \<open>
  Five persisted ledgers. In the first the one failed task was recorded twice (the
  ledger that a run over a duplicated task leaves), in the second the path of the failed
  task is also a key of the successes, in the third two failed entries spell the one
  destination in two ways, in the fourth the failed task and its mirror share the
  destination, and in the fifth the two failed tasks and the successful one have three
  different paths.
\<close>

definition twice_failed_index :: index_data where
  "twice_failed_index =
     \<lparr>idx_downloaded_files = [],
      idx_failed_downloads = [failed_entry book_task ConnectionError 1,
                              failed_entry book_task ConnectionError 1],
      total_downloaded = Some 0, total_failed = Some 2, last_retry_at = None,
      retry_summary = None\<rparr>"

definition overlapping_index :: index_data where
  "overlapping_index =
     \<lparr>idx_downloaded_files = [(''out/book_1.pdf'', existing_entry book_task (Some 2008))],
      idx_failed_downloads = [failed_entry book_task ConnectionError 1],
      total_downloaded = Some 1, total_failed = Some 1, last_retry_at = None,
      retry_summary = None\<rparr>"

definition respelled_index :: index_data where
  "respelled_index =
     \<lparr>idx_downloaded_files = [],
      idx_failed_downloads =
        [failed_entry book_task ConnectionError 1,
         failed_entry (book_task\<lparr>file_path := ''out//book_1.pdf''\<rparr>) ConnectionError 1],
      total_downloaded = Some 0, total_failed = Some 2, last_retry_at = None,
      retry_summary = None\<rparr>"

definition mirrored_index :: index_data where
  "mirrored_index =
     \<lparr>idx_downloaded_files = [],
      idx_failed_downloads = [failed_entry mirror_task ConnectionError 1,
                              failed_entry book_task ConnectionError 1],
      total_downloaded = Some 0, total_failed = Some 2, last_retry_at = None,
      retry_summary = None\<rparr>"

definition resumable_index :: index_data where
  "resumable_index =
     \<lparr>idx_downloaded_files = [(''out/third_3.pdf'', existing_entry third_task (Some 2008))],
      idx_failed_downloads = [failed_entry book_task ConnectionError 1,
                              failed_entry other_task ConnectionError 1],
      total_downloaded = Some 1, total_failed = Some 2, last_retry_at = None,
      retry_summary = None\<rparr>"

section \<open>Frames\<close>

text \<open>
  What a download for the destination \<open>p\<close> may change in the world: the file at \<open>p\<close>
  and the list of requests, which grows by requests of the task of \<open>p\<close>. \<open>touched\<close>
  also keeps the sleeps and the attempt log, \<open>ran\<close> lets them grow.
\<close>

definition touched :: "path \<Rightarrow> world \<Rightarrow> world \<Rightarrow> bool" where
  "touched p w w' =
     (sleeps w' = sleeps w \<and> attempt_log w' = attempt_log w \<and> clock w' = clock w
      \<and> (\<exists>rq. requests w' = requests w @ rq \<and> fst ` set rq \<subseteq> {p})
      \<and> (\<forall>q. q \<noteq> p \<longrightarrow> files w' q = files w q))"

definition ran :: "path \<Rightarrow> world \<Rightarrow> world \<Rightarrow> bool" where
  "ran p w w' =
     (clock w' = clock w
      \<and> (\<exists>rq. requests w' = requests w @ rq \<and> fst ` set rq \<subseteq> {p})
      \<and> (\<forall>q. q \<noteq> p \<longrightarrow> files w' q = files w q))"

text \<open>
  What one call of \<^verbatim>\<open>download_file\<close> for the destination \<open>p\<close> does to the ledger:
  afterwards \<open>p\<close> has exactly one record, and the records of every other path are as
  before.
\<close>

definition recorded_once :: "path \<Rightarrow> downloader \<Rightarrow> downloader \<Rightarrow> bool" where
  "recorded_once p D D' =
     (retry_count D' = retry_count D
      \<and> distinct (map fst (downloaded_files D'))
      \<and> successes D' p + failures D' p = 1
      \<and> (\<forall>q. q \<noteq> p \<longrightarrow> successes D' q = successes D q \<and> failures D' q = failures D q))"

section \<open>The existing-file checker\<close>

lemma check_existing_file_cases:
  "\<not> isl (path_exists fs p) \<Longrightarrow>
   check_existing_file fs p =
     Inr (valid_pdf fs p,
          if path_exists fs p = Inr True \<and> \<not> valid_pdf fs p \<and> \<not> isl (unlink fs p)
          then fs(p := None) else fs)"
  by (auto simp: check_existing_file_def check_body_def valid_pdf_def path_exists_def
      read_first_def st_size_def unlink_def split: option.splits sum.splits if_splits)

lemma check_existing_file_error:
  "isl (path_exists fs p) \<Longrightarrow> check_existing_file fs p = Inl OSError"
  by (auto simp: check_existing_file_def path_exists_def split: option.splits if_splits)

lemma check_existing_file_answers:
  "check_existing_file fs p = Inr r \<Longrightarrow> \<not> isl (path_exists fs p)"
  by (auto simp: check_existing_file_error)

lemma check_existing_file_other:
  "check_existing_file fs p = Inr (b, fs') \<Longrightarrow> q \<noteq> p \<Longrightarrow> fs' q = fs q"
  by (frule check_existing_file_answers) (auto simp: check_existing_file_cases split: if_splits)

lemma check_existing_file_after:
  "check_existing_file fs p = Inr (b, fs') \<Longrightarrow> \<not> isl (path_exists fs' p)"
  by (frule check_existing_file_answers)
     (auto simp: check_existing_file_cases path_exists_def split: if_splits)

text \<open>
  C10 at the failing input: a destination on which \<^verbatim>\<open>stat\<close> raises an error other
  than "no such file". \<^verbatim>\<open>file_path.exists()\<close> in line 90 is outside the \<^verbatim>\<open>try\<close>, so
  the error leaves \<^verbatim>\<open>check_existing_file\<close>; the first loop of
  \<^verbatim>\<open>download_all_pdfs\<close> calls the check outside any \<^verbatim>\<open>try\<close> as well, so the run
  ends there, before the task of the other destination is downloaded.
\<close>

theorem check_existing_file_raises:
  "check_existing_file [''out/book_1.pdf'' \<mapsto> no_access] ''out/book_1.pdf'' = Inl OSError
   \<and> download_all_pdfs good_pdf [other_task, book_task] (DirectPDFDownloader 3 3)
       (empty_world\<lparr>files := [''out/book_1.pdf'' \<mapsto> no_access]\<rparr>) = Inl OSError"
  by (simp add: download_all_pdfs_def check_existing_file_def check_body_def path_exists_def
      no_access_def other_task_def book_task_def empty_world_def)

text \<open>
  Where \<^verbatim>\<open>exists()\<close> answers, the check returns a boolean whatever else fails: false
  whenever reading the first bytes or \<^verbatim>\<open>stat\<close> fails, and a failing \<^verbatim>\<open>unlink\<close> is
  swallowed by the handler.
\<close>

lemma check_existing_file_returns:
  assumes "\<not> isl (path_exists fs p)"
  shows "\<exists>b fs'. check_existing_file fs p = Inr (b, fs') \<and>
     (isl (read_first fs p 4) \<or> isl (st_size fs p) \<longrightarrow> \<not> b)"
  using assms by (auto simp: check_existing_file_cases valid_pdf_def split: sum.splits)

text \<open>
  C3, as stated, fails: an existing file that is not valid and cannot be deleted is
  still there after the check, which returns false.
\<close>

theorem check_existing_file_keeps_undeletable:
  "path_exists [''out/book_1.pdf'' \<mapsto> locked_page] ''out/book_1.pdf'' = Inr True
   \<and> \<not> valid_pdf [''out/book_1.pdf'' \<mapsto> locked_page] ''out/book_1.pdf''
   \<and> check_existing_file [''out/book_1.pdf'' \<mapsto> locked_page] ''out/book_1.pdf''
       = Inr (False, [''out/book_1.pdf'' \<mapsto> locked_page])"
  by (simp add: check_existing_file_cases valid_pdf_def path_exists_def read_first_def
      unlink_def locked_page_def)

text \<open>
  C3, amended. The check returns true if and only if the path exists, is readable, its
  first four bytes are \<^verbatim>\<open>%PDF\<close> and \<^verbatim>\<open>stat\<close> reports a size above 1000; then the
  file system is unchanged. When it returns false and the path exists, the file is
  deleted if \<^verbatim>\<open>unlink\<close> succeeds; if \<^verbatim>\<open>unlink\<close> raises, the file system is unchanged.
\<close>

theorem check_existing_file_spec:
  "check_existing_file fs p = Inr (b, fs') \<Longrightarrow>
     (b \<longleftrightarrow> path_exists fs p = Inr True \<and> read_first fs p 4 = Inr ''%PDF''
            \<and> (\<exists>n. st_size fs p = Inr n \<and> 1000 < n))
     \<and> (b \<longrightarrow> fs' = fs)
     \<and> (\<not> b \<longrightarrow> path_exists fs p = Inr True \<longrightarrow> unlink fs p = Inr (fs(p := None))
          \<longrightarrow> fs' = fs(p := None))
     \<and> (\<not> b \<longrightarrow> unlink fs p = Inl OSError \<longrightarrow> fs' = fs)"
  by (frule check_existing_file_answers)
     (auto simp: check_existing_file_cases valid_pdf_def split: sum.splits)

theorem check_existing_file_spec_witness:
  "check_existing_file [''out/book_1.pdf'' \<mapsto> new_file ''<html>''] ''out/book_1.pdf''
     = Inr (False, Map.empty)
   \<and> path_exists [''out/book_1.pdf'' \<mapsto> new_file ''<html>''] ''out/book_1.pdf'' = Inr True
   \<and> unlink [''out/book_1.pdf'' \<mapsto> new_file ''<html>''] ''out/book_1.pdf'' = Inr Map.empty"
proof -
  let ?fs = "[''out/book_1.pdf'' \<mapsto> new_file ''<html>'']"
  let ?p = "''out/book_1.pdf''"
  have ex: "path_exists ?fs ?p = Inr True" by (simp add: path_exists_def new_file_def)
  have un: "unlink ?fs ?p = Inr (?fs(?p := None))" by (simp add: unlink_def new_file_def)
  obtain b fs' where r: "check_existing_file ?fs ?p = Inr (b, fs')"
    using ex by (simp add: check_existing_file_cases)
  have nb: "\<not> b"
    using check_existing_file_spec [OF r] by (simp add: read_first_def new_file_def)
  have "fs' = ?fs(?p := None)"
    using check_existing_file_spec [OF r] nb ex un by blast
  with r nb ex un show ?thesis by simp
qed

section \<open>One attempt and the retry loop of download\_file\<close>

declare download_attempts.simps [simp del] advanced_attempts.simps [simp del] slices.simps [simp del]

lemma session_get_eq:
  "session_get T p u w = (T (length (requests w)) u, w\<lparr>requests := requests w @ [(p, u)]\<rparr>)"
  by (simp add: session_get_def)

lemma touched_refl: "touched p w w"
  by (simp add: touched_def)

lemma touched_trans: "touched p w w1 \<Longrightarrow> touched p w1 w2 \<Longrightarrow> touched p w w2"
  unfolding touched_def by (elim conjE exE) (simp, blast)

lemma touched_get: "touched p w (w\<lparr>requests := requests w @ [(p, u)]\<rparr>)"
  by (simp add: touched_def)

lemma virus_scan_touched:
  "virus_scan T p du fid r w = (res, w') \<Longrightarrow> touched p w w'"
  by (auto simp: virus_scan_def session_get_eq touched_refl touched_get
      split: if_splits sum.splits option.splits prod.splits)

lemma virus_scan_unbroken:
  assumes "\<forall>n u r. T n u = Inr r \<longrightarrow> \<not> broken r" "\<not> broken r"
    and "virus_scan T p du fid r w = (Inr (r2, cached), w')"
  shows "\<not> broken r2"
  using assms
  by (auto simp: virus_scan_def session_get_eq
      split: if_splits sum.splits option.splits prod.splits)

lemma write_file_other: "write_file fs p d = Inr fs' \<Longrightarrow> q \<noteq> p \<Longrightarrow> fs' q = fs q"
  by (auto simp: write_file_def split: option.splits if_splits)

lemma stream_to_file_other:
  "stream_to_file fs p first rest brk = (res, fs') \<Longrightarrow> q \<noteq> p \<Longrightarrow> fs' q = fs q"
  by (auto simp: stream_to_file_def split: sum.splits dest: write_file_other)

lemma save_response_other:
  "save_response r cached fs p = (res, fs') \<Longrightarrow> q \<noteq> p \<Longrightarrow> fs' q = fs q"
  by (auto simp: save_response_def split: prod.splits if_splits list.splits
      dest: stream_to_file_other)

lemma touched_files:
  "touched p w w2 \<Longrightarrow> \<forall>q. q \<noteq> p \<longrightarrow> fs q = files w2 q \<Longrightarrow> touched p w (w2\<lparr>files := fs\<rparr>)"
  by (auto simp: touched_def)

lemma try_download_touched:
  assumes "try_download T u p w = (res, w')"
  shows "touched p w w'"
proof (cases "resolve u")
  case (Inl e)
  with assms show ?thesis by (simp add: try_download_def touched_refl)
next
  case (Inr du)
  obtain download_url file_id where du: "du = (download_url, file_id)" by (cases du)
  let ?w1 = "w\<lparr>requests := requests w @ [(p, download_url)]\<rparr>"
  have t1: "touched p w ?w1" by (rule touched_get)
  show ?thesis
  proof (cases "T (length (requests w)) download_url")
    case Inl
    with assms Inr du t1 show ?thesis by (simp add: try_download_def session_get_eq)
  next
    case r: (Inr r)
    obtain vr w2 where vs: "virus_scan T p download_url file_id r ?w1 = (vr, w2)"
      by (cases "virus_scan T p download_url file_id r ?w1")
    have t2: "touched p w w2"
      using touched_trans [OF t1 virus_scan_touched [OF vs]] .
    show ?thesis
    proof (cases vr)
      case Inl
      with assms Inr du r vs t2 show ?thesis by (simp add: try_download_def session_get_eq)
    next
      case vr: (Inr rc)
      obtain r2 cached where rc: "rc = (r2, cached)" by (cases rc)
      show ?thesis
      proof (cases "raise_for_status r2")
        case Inl
        with assms Inr du r vs vr rc t2 show ?thesis
          by (simp add: try_download_def session_get_eq)
      next
        case rs: (Inr x)
        obtain sr fs' where sv: "save_response r2 cached (files w2) p = (sr, fs')"
          by (cases "save_response r2 cached (files w2) p")
        have t3: "touched p w (w2\<lparr>files := fs'\<rparr>)"
          using touched_files [OF t2] save_response_other [OF sv] by simp
        from assms Inr du r vs vr rc rs sv have "w' = w2\<lparr>files := fs'\<rparr>"
          by (auto simp: try_download_def session_get_eq split: sum.splits if_splits)
        with t3 show ?thesis by simp
      qed
    qed
  qed
qed

lemma download_attempts_done:
  "\<not> k < retry_count D \<Longrightarrow> download_attempts T t k D w = (False, D, w)"
  by (subst download_attempts.simps) simp

lemma download_attempts_success:
  "k < retry_count D \<Longrightarrow>
   try_download T (url t) (file_path t) (w\<lparr>attempt_log := attempt_log w @ [k + 1]\<rparr>) = (Inr n, w1) \<Longrightarrow>
   download_attempts T t k D w =
     (True,
      D\<lparr>newly_downloaded := newly_downloaded D + 1,
        downloaded_files :=
          AList.update (file_path t) (newly_downloaded_entry t n (clock w1) (k + 1))
            (downloaded_files D)\<rparr>,
      w1)"
  by (subst download_attempts.simps) simp

lemma download_attempts_last:
  "k < retry_count D \<Longrightarrow> k = retry_count D - 1 \<Longrightarrow>
   try_download T (url t) (file_path t) (w\<lparr>attempt_log := attempt_log w @ [k + 1]\<rparr>) = (Inl e, w1) \<Longrightarrow>
   download_attempts T t k D w =
     (False, D\<lparr>failed_downloads := failed_downloads D @ [failed_entry t e (k + 1)]\<rparr>, w1)"
  by (subst download_attempts.simps) simp

lemma download_attempts_again:
  "k < retry_count D \<Longrightarrow> k \<noteq> retry_count D - 1 \<Longrightarrow>
   try_download T (url t) (file_path t) (w\<lparr>attempt_log := attempt_log w @ [k + 1]\<rparr>) = (Inl e, w1) \<Longrightarrow>
   download_attempts T t k D w =
     download_attempts T t (Suc k) D (w1\<lparr>sleeps := sleeps w1 @ [of_nat (min (2 ^ k) 10)]\<rparr>)"
  by (subst download_attempts.simps) simp


lemma download_attempts_ledger:
  "download_attempts T t k D w = (b, D', w') \<Longrightarrow>
     (b \<longrightarrow> (\<exists>e. D' = D\<lparr>newly_downloaded := newly_downloaded D + 1,
                         downloaded_files := AList.update (file_path t) e (downloaded_files D)\<rparr>))
     \<and> (\<not> b \<longrightarrow> k < retry_count D \<longrightarrow>
           (\<exists>e. D' = D\<lparr>failed_downloads :=
                          failed_downloads D @ [failed_entry t e (retry_count D)]\<rparr>))
     \<and> (\<not> b \<longrightarrow> \<not> k < retry_count D \<longrightarrow> D' = D)"
proof (induction "retry_count D - k" arbitrary: k w)
  case 0
  then have "\<not> k < retry_count D" by simp
  with 0 show ?case by (simp add: download_attempts_done)
next
  case (Suc m)
  then have lt: "k < retry_count D" by simp
  obtain res w1 where td:
    "try_download T (url t) (file_path t) (w\<lparr>attempt_log := attempt_log w @ [k + 1]\<rparr>) = (res, w1)"
    by (cases "try_download T (url t) (file_path t) (w\<lparr>attempt_log := attempt_log w @ [k + 1]\<rparr>)")
  show ?case
  proof (cases res)
    case (Inr n)
    with Suc.prems lt td show ?thesis by (auto simp: download_attempts_success)
  next
    case (Inl e)
    show ?thesis
    proof (cases "k = retry_count D - 1")
      case True
      with Suc.prems lt td Inl show ?thesis by (auto simp: download_attempts_last)
    next
      case False
      let ?w2 = "w1\<lparr>sleeps := sleeps w1 @ [of_nat (min (2 ^ k) 10)]\<rparr>"
      from Suc.prems lt td Inl False
      have r: "download_attempts T t (Suc k) D ?w2 = (b, D', w')"
        by (simp add: download_attempts_again)
      have m: "m = retry_count D - Suc k" using Suc.hyps(2) by simp
      from lt False have "Suc k < retry_count D" by simp
      with Suc.hyps(1) [OF m r] lt show ?thesis by simp
    qed
  qed
qed

lemma ran_refl: "ran p w w"
  by (simp add: ran_def)

lemma ran_trans: "ran p w w1 \<Longrightarrow> ran p w1 w2 \<Longrightarrow> ran p w w2"
  unfolding ran_def by (elim conjE exE) (simp, blast)

lemma touched_ran: "touched p w w' \<Longrightarrow> ran p w w'"
  by (simp add: touched_def ran_def)

lemma virus_scan_files:
  "virus_scan T p du fid r w = (res, w') \<Longrightarrow> files w' = files w"
  by (auto simp: virus_scan_def session_get_eq
      split: if_splits sum.splits option.splits prod.splits)

lemma download_attempts_ran:
  "download_attempts T t k D w = (b, D', w') \<Longrightarrow> ran (file_path t) w w'"
proof (induction "retry_count D - k" arbitrary: k w)
  case 0
  then have "\<not> k < retry_count D" by simp
  with 0 show ?case by (simp add: download_attempts_done ran_refl)
next
  case (Suc m)
  then have lt: "k < retry_count D" by simp
  let ?w0 = "w\<lparr>attempt_log := attempt_log w @ [k + 1]\<rparr>"
  obtain res w1 where td: "try_download T (url t) (file_path t) ?w0 = (res, w1)"
    by (cases "try_download T (url t) (file_path t) ?w0")
  have "ran (file_path t) ?w0 w1" using try_download_touched [OF td] by (rule touched_ran)
  then have r1: "ran (file_path t) w w1" by (simp add: ran_def)
  show ?case
  proof (cases res)
    case (Inr n)
    with Suc.prems lt td r1 show ?thesis by (simp add: download_attempts_success)
  next
    case (Inl e)
    show ?thesis
    proof (cases "k = retry_count D - 1")
      case True
      with Suc.prems lt td Inl r1 show ?thesis by (simp add: download_attempts_last)
    next
      case False
      let ?w2 = "w1\<lparr>sleeps := sleeps w1 @ [of_nat (min (2 ^ k) 10)]\<rparr>"
      from Suc.prems lt td Inl False
      have r: "download_attempts T t (Suc k) D ?w2 = (b, D', w')"
        by (simp add: download_attempts_again)
      have m: "m = retry_count D - Suc k" using Suc.hyps(2) by simp
      have "ran (file_path t) ?w2 w'" using Suc.hyps(1) [OF m r] .
      moreover have "ran (file_path t) w ?w2" using r1 by (simp add: ran_def)
      ultimately show ?thesis using ran_trans by blast
    qed
  qed
qed

lemma virus_scan_harmless:
  assumes "\<forall>n u r. T n u = Inr r \<longrightarrow> \<not> breaks_late r" "\<not> breaks_late r"
    and "virus_scan T p du fid r w = (Inr (r2, cached), w')"
  shows "\<not> breaks_late r2"
  using assms
  by (auto simp: virus_scan_def session_get_eq
      split: if_splits sum.splits option.splits prod.splits)

lemma concat_nonempty: "concat (filter (\<lambda>chunk. chunk \<noteq> []) cs) = concat cs"
  by (induction cs) auto

lemma write_file_result:
  "write_file fs p d = Inr fs' \<Longrightarrow> \<exists>f. fs' p = Some f \<and> bytes f = d"
  by (auto simp: write_file_def new_file_def split: option.splits if_splits)

lemma stream_to_file_cases:
  "stream_to_file fs p first rest brk = (res, fs') \<Longrightarrow>
     (res = Inl OSError \<and> fs' = fs) \<or>
     (res = (if brk then Inl ConnectionError else Inr ())
      \<and> write_file fs p (first @ concat rest) = Inr fs')"
  by (auto simp: stream_to_file_def write_file_def concat_nonempty
      split: sum.splits option.splits if_splits)

lemma valid_pdf_bytes:
  "valid_pdf fs p \<Longrightarrow> \<exists>f. fs p = Some f \<and> valid_bytes (bytes f)"
  by (auto simp: valid_pdf_def valid_bytes_def read_first_def st_size_def path_exists_def
      split: option.splits if_splits)

text \<open>
  What a failing \<^verbatim>\<open>save_response\<close> leaves at the destination: the file system as it
  was, or a file that is not valid, unless the stream broke after a valid file had been
  delivered.
\<close>

lemma save_response_failed:
  assumes "\<not> breaks_late r" "save_response r cached fs p = (Inl e, fs')"
  shows "fs' = fs \<or> \<not> valid_pdf fs' p"
proof (cases "snd (iter_content cached r)")
  case False
  then have ic: "iter_content cached r = (fst (iter_content cached r), False)"
    by (metis prod.collapse)
  show ?thesis
    using assms(2) unfolding save_response_def
    by (subst (asm) ic) (auto split: if_splits list.splits dest!: stream_to_file_cases)
next
  case True
  then have nc: "\<not> cached" and br: "broken r"
    by (auto simp: iter_content_def split: if_splits)
  with assms(1) have nv: "\<not> valid_bytes (concat (chunks r))"
    by (simp add: breaks_late_def)
  from nc have ic: "iter_content cached r = (chunks r, broken r)"
    by (simp add: iter_content_def)
  have "fs' = fs \<or> (\<exists>f. fs' p = Some f \<and> \<not> valid_bytes (bytes f))"
  proof (cases "fs' = fs")
    case True
    then show ?thesis ..
  next
    case False
    with assms(2) nc have "write_file fs p (concat (chunks r)) = Inr fs'"
      unfolding save_response_def ic
      by (auto split: if_splits list.splits dest!: stream_to_file_cases)
    from write_file_result [OF this] nv show ?thesis by auto
  qed
  then show ?thesis using valid_pdf_bytes [of fs' p] by auto
qed

lemma save_response_other_path:
  "save_response r cached fs p = (res, fs') \<Longrightarrow> \<not> isl (path_exists fs q) \<Longrightarrow> q \<noteq> p
     \<Longrightarrow> \<not> isl (path_exists fs' q)"
  by (drule save_response_other [where q = q]) (auto simp: path_exists_def)

lemma try_download_success_size:
  assumes "try_download T u p w = (Inr n, w')"
  shows "st_size (files w') p = Inr n \<and> 1000 \<le> n"
  using assms unfolding try_download_def
  by (auto split: sum.splits prod.splits if_splits)


lemma try_download_failed_invalid:
  assumes unb: "\<forall>n u r. T n u = Inr r \<longrightarrow> \<not> breaks_late r"
    and td: "try_download T u p w = (Inl e, w')"
    and inv: "\<not> valid_pdf (files w) p"
  shows "\<not> valid_pdf (files w') p"
proof (cases "resolve u")
  case (Inl e)
  with td inv show ?thesis by (simp add: try_download_def)
next
  case (Inr du)
  obtain download_url file_id where du: "du = (download_url, file_id)" by (cases du)
  let ?w1 = "w\<lparr>requests := requests w @ [(p, download_url)]\<rparr>"
  show ?thesis
  proof (cases "T (length (requests w)) download_url")
    case Inl
    with td Inr du inv show ?thesis by (auto simp: try_download_def session_get_eq)
  next
    case r: (Inr r)
    from unb r have nb: "\<not> breaks_late r" by blast
    obtain vr w2 where vs: "virus_scan T p download_url file_id r ?w1 = (vr, w2)"
      by (cases "virus_scan T p download_url file_id r ?w1")
    have f2: "files w2 = files w" using virus_scan_files [OF vs] by simp
    show ?thesis
    proof (cases vr)
      case Inl
      with td Inr du r vs f2 inv show ?thesis by (auto simp: try_download_def session_get_eq)
    next
      case vr: (Inr rc)
      obtain r2 cached where rc: "rc = (r2, cached)" by (cases rc)
      have nb2: "\<not> breaks_late r2" using virus_scan_harmless [OF unb nb] vs vr rc by blast
      show ?thesis
      proof (cases "raise_for_status r2")
        case Inl
        with td Inr du r vs vr rc f2 inv show ?thesis
          by (auto simp: try_download_def session_get_eq)
      next
        case rs: (Inr x)
        obtain sr fs' where sv: "save_response r2 cached (files w2) p = (sr, fs')"
          by (cases "save_response r2 cached (files w2) p")
        from td Inr du r vs vr rc rs sv have w': "files w' = fs'"
          by (auto simp: try_download_def session_get_eq split: sum.splits if_splits)
        show ?thesis
        proof (cases sr)
          case (Inl e2)
          from save_response_failed [OF nb2 sv [unfolded Inl]] w' f2 inv
          show ?thesis by auto
        next
          case (Inr y)
          with td \<open>resolve u = Inr du\<close> du r vs vr rc rs sv
          have "isl (st_size fs' p) \<or> (\<exists>n. st_size fs' p = Inr n \<and> n < 1000)"
            by (auto simp: try_download_def session_get_eq split: sum.splits if_splits)
          then have "\<not> valid_pdf fs' p" by (auto simp: valid_pdf_def split: sum.splits)
          with w' show ?thesis by simp
        qed
      qed
    qed
  qed
qed

lemma download_attempts_failed_invalid:
  assumes unb: "\<forall>n u r. T n u = Inr r \<longrightarrow> \<not> breaks_late r"
  shows "download_attempts T t k D w = (False, D', w') \<Longrightarrow> \<not> valid_pdf (files w) (file_path t)
     \<Longrightarrow> \<not> valid_pdf (files w') (file_path t)"
proof (induction "retry_count D - k" arbitrary: k w)
  case 0
  then have "\<not> k < retry_count D" by simp
  with 0 show ?case by (simp add: download_attempts_done)
next
  case (Suc m)
  then have lt: "k < retry_count D" by simp
  let ?w0 = "w\<lparr>attempt_log := attempt_log w @ [k + 1]\<rparr>"
  obtain res w1 where td: "try_download T (url t) (file_path t) ?w0 = (res, w1)"
    by (cases "try_download T (url t) (file_path t) ?w0")
  show ?case
  proof (cases res)
    case (Inr n)
    with Suc.prems lt td show ?thesis by (simp add: download_attempts_success)
  next
    case (Inl e)
    have i1: "\<not> valid_pdf (files w1) (file_path t)"
      using try_download_failed_invalid [OF unb td [unfolded Inl]] Suc.prems(2) by simp
    show ?thesis
    proof (cases "k = retry_count D - 1")
      case True
      with Suc.prems lt td Inl i1 show ?thesis by (simp add: download_attempts_last)
    next
      case False
      let ?w2 = "w1\<lparr>sleeps := sleeps w1 @ [of_nat (min (2 ^ k) 10)]\<rparr>"
      from Suc.prems lt td Inl False
      have r: "download_attempts T t (Suc k) D ?w2 = (False, D', w')"
        by (simp add: download_attempts_again)
      have m: "m = retry_count D - Suc k" using Suc.hyps(2) by simp
      show ?thesis using Suc.hyps(1) [OF m r] i1 by simp
    qed
  qed
qed

section \<open>One attempt of download\_file\_advanced\<close>

lemma retry_virus_scan_touched:
  "retry_virus_scan T p gid r w = (res, w') \<Longrightarrow> touched p w w'"
  by (auto simp: retry_virus_scan_def session_get_eq touched_refl touched_get
      split: if_splits sum.splits option.splits prod.splits)

lemma retry_virus_scan_files:
  "retry_virus_scan T p gid r w = (res, w') \<Longrightarrow> files w' = files w"
  by (auto simp: retry_virus_scan_def session_get_eq
      split: if_splits sum.splits option.splits prod.splits)


lemma retry_virus_scan_harmless:
  assumes "\<forall>n u r. T n u = Inr r \<longrightarrow> \<not> breaks_late r" "\<not> breaks_late r"
    and "retry_virus_scan T p gid r w = (Inr (r2, cached), w')"
  shows "\<not> breaks_late r2"
  using assms
  by (auto simp: retry_virus_scan_def session_get_eq
      split: if_splits sum.splits option.splits prod.splits)

lemma retry_save_response_other:
  "retry_save_response r cached fs p = (res, fs') \<Longrightarrow> q \<noteq> p \<Longrightarrow> fs' q = fs q"
  by (auto simp: retry_save_response_def split: prod.splits if_splits list.splits
      dest: stream_to_file_other)


lemma retry_save_response_failed:
  assumes "\<not> breaks_late r" "retry_save_response r cached fs p = (Inl e, fs')"
  shows "fs' = fs \<or> \<not> valid_pdf fs' p"
proof (cases "snd (iter_content cached r)")
  case False
  then have ic: "iter_content cached r = (fst (iter_content cached r), False)"
    by (metis prod.collapse)
  show ?thesis
    using assms(2) unfolding retry_save_response_def
    by (subst (asm) ic) (auto split: if_splits list.splits dest!: stream_to_file_cases)
next
  case True
  then have nc: "\<not> cached" and br: "broken r"
    by (auto simp: iter_content_def split: if_splits)
  with assms(1) have nv: "\<not> valid_bytes (concat (chunks r))"
    by (simp add: breaks_late_def)
  from nc have ic: "iter_content cached r = (chunks r, broken r)"
    by (simp add: iter_content_def)
  have "fs' = fs \<or> (\<exists>f. fs' p = Some f \<and> \<not> valid_bytes (bytes f))"
  proof (cases "fs' = fs")
    case True
    then show ?thesis ..
  next
    case False
    with assms(2) nc have "write_file fs p (concat (chunks r)) = Inr fs'"
      unfolding retry_save_response_def ic
      by (auto split: if_splits list.splits dest!: stream_to_file_cases)
    from write_file_result [OF this] nv show ?thesis by auto
  qed
  then show ?thesis using valid_pdf_bytes [of fs' p] by auto
qed

lemma attempt_download_touched:
  assumes "attempt_download T u p gid w = (res, w')"
  shows "touched p w w'"
proof -
  let ?w1 = "w\<lparr>requests := requests w @ [(p, u)]\<rparr>"
  have t1: "touched p w ?w1" by (rule touched_get)
  show ?thesis
  proof (cases "T (length (requests w)) u")
    case Inl
    with assms t1 show ?thesis by (simp add: attempt_download_def session_get_eq)
  next
    case r: (Inr r)
    obtain vr w2 where vs: "retry_virus_scan T p gid r ?w1 = (vr, w2)"
      by (cases "retry_virus_scan T p gid r ?w1")
    have t2: "touched p w w2"
      using touched_trans [OF t1 retry_virus_scan_touched [OF vs]] .
    show ?thesis
    proof (cases vr)
      case Inl
      with assms r vs t2 show ?thesis by (simp add: attempt_download_def session_get_eq)
    next
      case vr: (Inr rc)
      obtain r2 cached where rc: "rc = (r2, cached)" by (cases rc)
      show ?thesis
      proof (cases "raise_for_status r2")
        case Inl
        with assms r vs vr rc t2 show ?thesis
          by (simp add: attempt_download_def session_get_eq)
      next
        case rs: (Inr x)
        obtain sr fs' where sv: "retry_save_response r2 cached (files w2) p = (sr, fs')"
          by (cases "retry_save_response r2 cached (files w2) p")
        have t3: "touched p w (w2\<lparr>files := fs'\<rparr>)"
          using touched_files [OF t2] retry_save_response_other [OF sv] by simp
        from assms r vs vr rc rs sv have "w' = w2\<lparr>files := fs'\<rparr>"
          by (auto simp: attempt_download_def session_get_eq split: sum.splits if_splits)
        with t3 show ?thesis by simp
      qed
    qed
  qed
qed

lemma attempt_download_success_size:
  assumes "attempt_download T u p gid w = (Inr b, w')"
  shows "b \<and> (\<exists>n. st_size (files w') p = Inr n \<and> 1000 \<le> n)"
  using assms unfolding attempt_download_def
  by (auto split: sum.splits prod.splits if_splits)

lemma attempt_download_failed_invalid:
  assumes unb: "\<forall>n u r. T n u = Inr r \<longrightarrow> \<not> breaks_late r"
    and td: "attempt_download T u p gid w = (Inl e, w')"
    and inv: "\<not> valid_pdf (files w) p"
  shows "\<not> valid_pdf (files w') p"
proof -
  let ?w1 = "w\<lparr>requests := requests w @ [(p, u)]\<rparr>"
  show ?thesis
  proof (cases "T (length (requests w)) u")
    case Inl
    with td inv show ?thesis by (auto simp: attempt_download_def session_get_eq)
  next
    case r: (Inr r)
    from unb r have nb: "\<not> breaks_late r" by blast
    obtain vr w2 where vs: "retry_virus_scan T p gid r ?w1 = (vr, w2)"
      by (cases "retry_virus_scan T p gid r ?w1")
    have f2: "files w2 = files w" using retry_virus_scan_files [OF vs] by simp
    show ?thesis
    proof (cases vr)
      case Inl
      with td r vs f2 inv show ?thesis by (auto simp: attempt_download_def session_get_eq)
    next
      case vr: (Inr rc)
      obtain r2 cached where rc: "rc = (r2, cached)" by (cases rc)
      have nb2: "\<not> breaks_late r2"
        using retry_virus_scan_harmless [OF unb nb] vs vr rc by blast
      show ?thesis
      proof (cases "raise_for_status r2")
        case Inl
        with td r vs vr rc f2 inv show ?thesis
          by (auto simp: attempt_download_def session_get_eq)
      next
        case rs: (Inr x)
        obtain sr fs' where sv: "retry_save_response r2 cached (files w2) p = (sr, fs')"
          by (cases "retry_save_response r2 cached (files w2) p")
        from td r vs vr rc rs sv have w': "files w' = fs'"
          by (auto simp: attempt_download_def session_get_eq split: sum.splits if_splits)
        show ?thesis
        proof (cases sr)
          case (Inl e2)
          from retry_save_response_failed [OF nb2 sv [unfolded Inl]] w' f2 inv
          show ?thesis by auto
        next
          case (Inr y)
          with td r vs vr rc rs sv
          have "isl (st_size fs' p) \<or> (\<exists>n. st_size fs' p = Inr n \<and> n < 1000)"
            by (auto simp: attempt_download_def session_get_eq split: sum.splits if_splits)
          then have "\<not> valid_pdf fs' p" by (auto simp: valid_pdf_def split: sum.splits)
          with w' show ?thesis by simp
        qed
      qed
    qed
  qed
qed

lemma try_methods_touched:
  "try_methods T p fid us w = (b, w') \<Longrightarrow> touched p w w'"
proof (induction us arbitrary: w)
  case Nil
  then show ?case by (simp add: touched_refl)
next
  case (Cons u us)
  obtain res w1 where ad: "attempt_download T u p (Some fid) w = (res, w1)"
    by (cases "attempt_download T u p (Some fid) w")
  have t1: "touched p w w1" using attempt_download_touched [OF ad] .
  show ?case
  proof (cases "res = Inr True")
    case True
    with Cons.prems ad t1 show ?thesis by simp
  next
    case False
    with Cons.prems ad have "try_methods T p fid us w1 = (b, w')"
      by (auto split: sum.splits if_splits)
    from touched_trans [OF t1 Cons.IH [OF this]] show ?thesis .
  qed
qed

lemma try_methods_success_size:
  "try_methods T p fid us w = (True, w') \<Longrightarrow> \<exists>n. st_size (files w') p = Inr n \<and> 1000 \<le> n"
proof (induction us arbitrary: w)
  case Nil
  then show ?case by simp
next
  case (Cons u us)
  obtain res w1 where ad: "attempt_download T u p (Some fid) w = (res, w1)"
    by (cases "attempt_download T u p (Some fid) w")
  show ?case
  proof (cases "res = Inr True")
    case True
    with Cons.prems ad attempt_download_success_size [of T u p "Some fid" w True w1]
    show ?thesis by simp
  next
    case False
    with Cons.prems ad have "try_methods T p fid us w1 = (True, w')"
      by (auto split: sum.splits if_splits)
    from Cons.IH [OF this] show ?thesis .
  qed
qed

lemma try_methods_failed_invalid:
  assumes unb: "\<forall>n u r. T n u = Inr r \<longrightarrow> \<not> breaks_late r"
  shows "try_methods T p fid us w = (False, w') \<Longrightarrow> \<not> valid_pdf (files w) p
    \<Longrightarrow> \<not> valid_pdf (files w') p"
proof (induction us arbitrary: w)
  case Nil
  then show ?case by simp
next
  case (Cons u us)
  obtain res w1 where ad: "attempt_download T u p (Some fid) w = (res, w1)"
    by (cases "attempt_download T u p (Some fid) w")
  show ?case
  proof (cases res)
    case (Inl e)
    with Cons.prems ad have r: "try_methods T p fid us w1 = (False, w')" by simp
    have "\<not> valid_pdf (files w1) p"
      using attempt_download_failed_invalid [OF unb ad [unfolded Inl] Cons.prems(2)] .
    from Cons.IH [OF r this] show ?thesis .
  next
    case (Inr b)
    with attempt_download_success_size [of T u p "Some fid" w b w1] ad have "b" by simp
    with Cons.prems ad Inr show ?thesis by simp
  qed
qed

lemma try_advanced_touched:
  assumes "try_advanced T u p w = (res, w')"
  shows "touched p w w'"
  using assms unfolding try_advanced_def
  by (auto split: if_splits option.splits prod.splits sum.splits
      simp: touched_refl dest: try_methods_touched attempt_download_touched)

lemma try_advanced_failed_invalid:
  assumes unb: "\<forall>n u r. T n u = Inr r \<longrightarrow> \<not> breaks_late r"
    and ta: "try_advanced T u p w = (Inl e, w')"
    and inv: "\<not> valid_pdf (files w) p"
  shows "\<not> valid_pdf (files w') p"
  using ta inv unfolding try_advanced_def
  by (auto split: if_splits option.splits prod.splits sum.splits
      dest: try_methods_failed_invalid [OF unb] attempt_download_failed_invalid [OF unb]
        try_methods_success_size attempt_download_success_size)

section \<open>The retry loop of download\_file\_advanced\<close>

lemma advanced_attempts_done:
  "\<not> k < r_retry_count R \<Longrightarrow> advanced_attempts T t k R w = (Inr False, R, w)"
  by (subst advanced_attempts.simps) simp

lemma advanced_attempts_success:
  "k < r_retry_count R \<Longrightarrow>
   try_advanced T (url t) (file_path t) (w\<lparr>attempt_log := attempt_log w @ [k + 1]\<rparr>) = (Inr n, w1) \<Longrightarrow>
   advanced_attempts T t k R w =
     (Inr True,
      R\<lparr>r_newly_downloaded :=
          AList.update (file_path t) (retried_entry t n (clock w1) (k + 1))
            (r_newly_downloaded R)\<rparr>,
      w1)"
  by (subst advanced_attempts.simps) simp

lemma advanced_attempts_last:
  "k < r_retry_count R \<Longrightarrow> k = r_retry_count R - 1 \<Longrightarrow>
   try_advanced T (url t) (file_path t) (w\<lparr>attempt_log := attempt_log w @ [k + 1]\<rparr>) = (Inl e, w1) \<Longrightarrow>
   advanced_attempts T t k R w =
     (Inr False,
      R\<lparr>still_failed := still_failed R @ [still_failed_entry t e (r_retry_count R)]\<rparr>, w1)"
  by (subst advanced_attempts.simps) simp

lemma advanced_attempts_overflow:
  "k < r_retry_count R \<Longrightarrow> k \<noteq> r_retry_count R - 1 \<Longrightarrow>
   try_advanced T (url t) (file_path t) (w\<lparr>attempt_log := attempt_log w @ [k + 1]\<rparr>) = (Inl e, w1) \<Longrightarrow>
   max_sleep < wait_time k \<Longrightarrow>
   advanced_attempts T t k R w = (Inl OverflowError, R, w1)"
  by (subst advanced_attempts.simps) simp

lemma advanced_attempts_again:
  "k < r_retry_count R \<Longrightarrow> k \<noteq> r_retry_count R - 1 \<Longrightarrow>
   try_advanced T (url t) (file_path t) (w\<lparr>attempt_log := attempt_log w @ [k + 1]\<rparr>) = (Inl e, w1) \<Longrightarrow>
   \<not> max_sleep < wait_time k \<Longrightarrow>
   advanced_attempts T t k R w =
     advanced_attempts T t (Suc k) R (w1\<lparr>sleeps := sleeps w1 @ [wait_time k]\<rparr>)"
  by (subst advanced_attempts.simps) simp



lemma advanced_attempts_ran:
  "advanced_attempts T t k R w = (res, R', w') \<Longrightarrow> ran (file_path t) w w'"
proof (induction "r_retry_count R - k" arbitrary: k w)
  case 0
  then have "\<not> k < r_retry_count R" by simp
  with 0 show ?case by (simp add: advanced_attempts_done ran_refl)
next
  case (Suc m)
  then have lt: "k < r_retry_count R" by simp
  let ?w0 = "w\<lparr>attempt_log := attempt_log w @ [k + 1]\<rparr>"
  obtain res1 w1 where td: "try_advanced T (url t) (file_path t) ?w0 = (res1, w1)"
    by (cases "try_advanced T (url t) (file_path t) ?w0")
  have "ran (file_path t) ?w0 w1" using try_advanced_touched [OF td] by (rule touched_ran)
  then have r1: "ran (file_path t) w w1" by (simp add: ran_def)
  show ?case
  proof (cases res1)
    case (Inr n)
    with Suc.prems lt td r1 show ?thesis by (simp add: advanced_attempts_success)
  next
    case (Inl e)
    show ?thesis
    proof (cases "k = r_retry_count R - 1")
      case True
      with Suc.prems lt td Inl r1 show ?thesis by (simp add: advanced_attempts_last)
    next
      case False
      show ?thesis
      proof (cases "max_sleep < wait_time k")
        case True
        with Suc.prems lt td Inl False r1 show ?thesis
          by (simp add: advanced_attempts_overflow)
      next
        case nov: False
        let ?w2 = "w1\<lparr>sleeps := sleeps w1 @ [wait_time k]\<rparr>"
        have m: "m = r_retry_count R - Suc k" using Suc.hyps(2) by simp
        from Suc.prems lt td Inl False nov
        have r: "advanced_attempts T t (Suc k) R ?w2 = (res, R', w')"
          by (simp add: advanced_attempts_again)
        have "ran (file_path t) ?w2 w'" using Suc.hyps(1) [OF m r] .
        moreover have "ran (file_path t) w ?w2" using r1 by (simp add: ran_def)
        ultimately show ?thesis using ran_trans by blast
      qed
    qed
  qed
qed

lemma advanced_attempts_failed_invalid:
  assumes unb: "\<forall>n u r. T n u = Inr r \<longrightarrow> \<not> breaks_late r"
  shows "advanced_attempts T t k R w = (Inr False, R', w') \<Longrightarrow>
     \<not> valid_pdf (files w) (file_path t) \<Longrightarrow> \<not> valid_pdf (files w') (file_path t)"
proof (induction "r_retry_count R - k" arbitrary: k w)
  case 0
  then have "\<not> k < r_retry_count R" by simp
  with 0 show ?case by (simp add: advanced_attempts_done)
next
  case (Suc m)
  then have lt: "k < r_retry_count R" by simp
  let ?w0 = "w\<lparr>attempt_log := attempt_log w @ [k + 1]\<rparr>"
  obtain res1 w1 where td: "try_advanced T (url t) (file_path t) ?w0 = (res1, w1)"
    by (cases "try_advanced T (url t) (file_path t) ?w0")
  show ?case
  proof (cases res1)
    case (Inr n)
    with Suc.prems lt td show ?thesis by (simp add: advanced_attempts_success)
  next
    case (Inl e)
    have i1: "\<not> valid_pdf (files w1) (file_path t)"
      using try_advanced_failed_invalid [OF unb td [unfolded Inl]] Suc.prems(2) by simp
    show ?thesis
    proof (cases "k = r_retry_count R - 1")
      case True
      with Suc.prems lt td Inl i1 show ?thesis by (simp add: advanced_attempts_last)
    next
      case False
      show ?thesis
      proof (cases "max_sleep < wait_time k")
        case True
        with Suc.prems lt td Inl False show ?thesis
          by (simp add: advanced_attempts_overflow)
      next
        case nov: False
        let ?w2 = "w1\<lparr>sleeps := sleeps w1 @ [wait_time k]\<rparr>"
        have m: "m = r_retry_count R - Suc k" using Suc.hyps(2) by simp
        from Suc.prems lt td Inl False nov
        have r: "advanced_attempts T t (Suc k) R ?w2 = (Inr False, R', w')"
          by (simp add: advanced_attempts_again)
        show ?thesis using Suc.hyps(1) [OF m r] i1 by simp
      qed
    qed
  qed
qed

section \<open>Retry budget and delays\<close>























section \<open>Failed tasks and their destinations\<close>

lemma valid_pdf_frame:
  "files w' q = files w q \<Longrightarrow> valid_pdf (files w') q = valid_pdf (files w) q"
  by (simp add: valid_pdf_def path_exists_def read_first_def st_size_def)

lemma path_exists_cong: "fs' q = fs q \<Longrightarrow> path_exists fs' q = path_exists fs q"
  by (simp add: path_exists_def)

lemma ran_files: "ran p w w' \<Longrightarrow> q \<noteq> p \<Longrightarrow> files w' q = files w q"
  by (simp add: ran_def)

lemma download_file_failed:
  assumes "download_file T t D w = Inr (False, D', w')"
  obtains fs' where "check_existing_file (files w) (file_path t) = Inr (False, fs')"
    and "download_attempts T t 0 D (w\<lparr>files := fs'\<rparr>) = (False, D', w')"
    and "\<not> valid_pdf fs' (file_path t)"
proof -
  let ?p = "file_path t"
  from assms obtain b fs' where c: "check_existing_file (files w) ?p = Inr (b, fs')"
    by (auto simp: download_file_def split: sum.splits)
  have an: "\<not> isl (path_exists (files w) ?p)"
    using c by (rule check_existing_file_answers)
  from c have b: "b = valid_pdf (files w) ?p"
    and fs': "fs' = (if path_exists (files w) ?p = Inr True \<and> \<not> valid_pdf (files w) ?p
                \<and> \<not> isl (unlink (files w) ?p) then (files w)(?p := None) else files w)"
    by (auto simp: check_existing_file_cases [OF an])
  from assms c have nb: "\<not> b"
    by (auto simp: download_file_def split: bool.splits)
  with assms c have da: "download_attempts T t 0 D (w\<lparr>files := fs'\<rparr>) = (False, D', w')"
    by (simp add: download_file_def)
  have "\<not> valid_pdf fs' ?p"
    using nb b fs' by (auto simp: valid_pdf_def path_exists_def)
  with that c nb da show ?thesis by simp
qed

lemma download_file_ran:
  assumes "download_file T t D w = Inr (b, D', w')"
  shows "ran (file_path t) w w'"
proof -
  let ?p = "file_path t"
  from assms obtain c fs' where c: "check_existing_file (files w) ?p = Inr (c, fs')"
    by (auto simp: download_file_def split: sum.splits)
  have r0: "ran ?p w (w\<lparr>files := fs'\<rparr>)"
    using check_existing_file_other [OF c] by (simp add: ran_def)
  show ?thesis
  proof (cases c)
    case True
    with assms c r0 show ?thesis by (simp add: download_file_def)
  next
    case False
    with assms c have "download_attempts T t 0 D (w\<lparr>files := fs'\<rparr>) = (b, D', w')"
      by (simp add: download_file_def)
    from ran_trans [OF r0 download_attempts_ran [OF this]] show ?thesis .
  qed
qed

lemma download_file_failures:
  assumes "download_file T t D w = Inr (b, D', w')"
  shows "failed_downloads D' = failed_downloads D
     \<or> (\<not> b \<and> (\<exists>e. failed_downloads D' =
                        failed_downloads D @ [failed_entry t e (retry_count D)]))"
proof -
  let ?p = "file_path t"
  from assms obtain c fs' where c: "check_existing_file (files w) ?p = Inr (c, fs')"
    by (auto simp: download_file_def split: sum.splits)
  show ?thesis
  proof (cases c)
    case True
    with assms c show ?thesis by (auto simp: download_file_def)
  next
    case False
    with assms c have da: "download_attempts T t 0 D (w\<lparr>files := fs'\<rparr>) = (b, D', w')"
      by (simp add: download_file_def)
    from download_attempts_ledger [OF da] show ?thesis
      by (cases b; cases "0 < retry_count D") auto
  qed
qed

lemma download_file_failed_invalid:
  assumes unb: "\<forall>n u r. T n u = Inr r \<longrightarrow> \<not> breaks_late r"
    and "download_file T t D w = Inr (False, D', w')"
  shows "\<not> valid_pdf (files w') (file_path t)"
proof -
  from assms(2) obtain fs' where
    da: "download_attempts T t 0 D (w\<lparr>files := fs'\<rparr>) = (False, D', w')"
    and nv: "\<not> valid_pdf fs' (file_path t)"
    by (rule download_file_failed)
  show ?thesis
    using download_attempts_failed_invalid [OF unb da] nv by simp
qed

lemma run_pool_failed_invalid:
  assumes unb: "\<forall>n u r. T n u = Inr r \<longrightarrow> \<not> breaks_late r"
  shows "distinct (map file_path ts) \<Longrightarrow>
     \<forall>f\<in>set (failed_downloads D).
        \<not> valid_pdf (files w) (file_path f) \<and> file_path f \<notin> file_path ` set ts \<Longrightarrow>
     run_pool T ts D w = (D', w') \<Longrightarrow>
     \<forall>f\<in>set (failed_downloads D'). \<not> valid_pdf (files w') (file_path f)"
proof (induction ts arbitrary: D w)
  case Nil
  then show ?case by simp
next
  case (Cons t ts)
  let ?p = "file_path t"
  from Cons.prems(1) have dts: "distinct (map file_path ts)" and np: "?p \<notin> file_path ` set ts"
    by auto
  show ?case
  proof (cases "download_file T t D w")
    case (Inl e)
    with Cons.prems(3) have rp: "run_pool T ts D w = (D', w')" by simp
    from Cons.prems(2) have
      "\<forall>f\<in>set (failed_downloads D).
        \<not> valid_pdf (files w) (file_path f) \<and> file_path f \<notin> file_path ` set ts"
      by auto
    from Cons.IH [OF dts this rp] show ?thesis .
  next
    case (Inr x)
    obtain b D1 w1 where x: "x = (b, D1, w1)" by (cases x)
    with Inr have df: "download_file T t D w = Inr (b, D1, w1)" by simp
    with Cons.prems(3) have rp: "run_pool T ts D1 w1 = (D', w')" by simp
    have fr: "\<And>q. q \<noteq> ?p \<Longrightarrow> files w1 q = files w q"
      using ran_files [OF download_file_ran [OF df]] .
    have inv: "\<forall>f\<in>set (failed_downloads D1).
        \<not> valid_pdf (files w1) (file_path f) \<and> file_path f \<notin> file_path ` set ts"
    proof
      fix f assume f: "f \<in> set (failed_downloads D1)"
      show "\<not> valid_pdf (files w1) (file_path f) \<and> file_path f \<notin> file_path ` set ts"
      proof (cases "f \<in> set (failed_downloads D)")
        case True
        with Cons.prems(2) have a: "\<not> valid_pdf (files w) (file_path f)"
          and b: "file_path f \<notin> file_path ` set (t # ts)" by auto
        from b have ne: "file_path f \<noteq> ?p" by auto
        from a valid_pdf_frame [OF fr [OF ne]] b show ?thesis by auto
      next
        case False
        with f download_file_failures [OF df] obtain e where
          nb: "\<not> b" and fe: "f = failed_entry t e (retry_count D)" by auto
        from nb df have "download_file T t D w = Inr (False, D1, w1)" by simp
        from download_file_failed_invalid [OF unb this] fe np show ?thesis
          by (simp add: failed_entry_def)
      qed
    qed
    from Cons.IH [OF dts inv rp] show ?thesis .
  qed
qed

lemma check_all_failures:
  "check_all ts D w = Inr (todo, D', w') \<Longrightarrow>
     failed_downloads D' = failed_downloads D
     \<and> file_path ` set todo \<subseteq> file_path ` set ts
     \<and> (distinct (map file_path ts) \<longrightarrow> distinct (map file_path todo))"
proof (induction ts arbitrary: D w todo)
  case Nil
  then show ?case by simp
next
  case (Cons t ts)
  from Cons.prems obtain b fs' where
    c: "check_existing_file (files w) (file_path t) = Inr (b, fs')"
    by (auto split: sum.splits)
  show ?case
  proof (cases b)
    case True
    let ?D1 = "D\<lparr>existing_files := existing_files D + 1,
               downloaded_files :=
                 AList.update (file_path t) (existing_entry t (stat_opt fs' (file_path t)))
                   (downloaded_files D)\<rparr>"
    from True Cons.prems c have r: "check_all ts ?D1 (w\<lparr>files := fs'\<rparr>) = Inr (todo, D', w')"
      by simp
    from Cons.IH [OF r] show ?thesis by auto
  next
    case False
    with Cons.prems c obtain rest where
      r: "check_all ts D (w\<lparr>files := fs'\<rparr>) = Inr (rest, D', w')" and t: "todo = t # rest"
      by (auto split: sum.splits)
    from Cons.IH [OF r] t show ?thesis by auto
  qed
qed

lemma download_all_pdfs_failed_invalid:
  assumes unb: "\<forall>n u r. T n u = Inr r \<longrightarrow> \<not> breaks_late r"
    and "distinct (map file_path ts)" and "failed_downloads D = []"
    and "download_all_pdfs T ts D w = Inr (D', w')"
  shows "\<forall>f\<in>set (failed_downloads D'). \<not> valid_pdf (files w') (file_path f)"
proof -
  from assms(4) obtain todo D1 w1 where ca: "check_all ts D w = Inr (todo, D1, w1)"
    by (auto simp: download_all_pdfs_def split: sum.splits)
  from check_all_failures [OF ca] assms(2,3) have f1: "failed_downloads D1 = []"
    and dt: "distinct (map file_path todo)" by simp_all
  show ?thesis
  proof (cases "todo = []")
    case True
    with assms(4) ca f1 show ?thesis by (simp add: download_all_pdfs_def)
  next
    case False
    with assms(4) ca have rp: "run_pool T todo D1 w1 = (D', w')"
      by (simp add: download_all_pdfs_def)
    from f1 have "\<forall>f\<in>set (failed_downloads D1).
        \<not> valid_pdf (files w1) (file_path f) \<and> file_path f \<notin> file_path ` set todo"
      by simp
    from run_pool_failed_invalid [OF unb dt this rp] show ?thesis .
  qed
qed

end
